theory Spec2Isabelle
  imports Complex_Main
begin

section \<open>Python values and string primitives\<close>

text \<open>
  Strings are lists of 8-bit characters; the model covers ASCII text, which is what the
  SEC renderer emits in the cells, headers and short names the scraper reads.  Python
  exceptions are values of the type \<open>error\<close>, and a function that may raise returns
  \<open>error + 'a\<close> with \<open>Inl\<close> for the exception.
\<close>

datatype error = ValueError | IndexError | KeyError | AttributeError

definition is_digit :: "char \<Rightarrow> bool" where
  "is_digit c = (c \<in> set ''0123456789'')"

text \<open>The characters \<open>str.strip()\<close> removes, restricted to ASCII.\<close>

definition is_space :: "char \<Rightarrow> bool" where
  "is_space c =
     (c \<in> set [CHR 0x09, CHR 0x0A, CHR 0x0B, CHR 0x0C, CHR 0x0D,
                CHR 0x1C, CHR 0x1D, CHR 0x1E, CHR 0x1F, CHR '' ''])"

definition strip :: "string \<Rightarrow> string" where
  "strip s = rev (dropWhile is_space (rev (dropWhile is_space s)))"

text \<open>\<open>str.lower()\<close> on ASCII letters.\<close>

definition lower_char :: "char \<Rightarrow> char" where
  "lower_char c =
     (case map_of (zip ''ABCDEFGHIJKLMNOPQRSTUVWXYZ'' ''abcdefghijklmnopqrstuvwxyz'') c of
        None \<Rightarrow> c
      | Some l \<Rightarrow> l)"

definition lower :: "string \<Rightarrow> string" where
  "lower s = map lower_char s"

fun starts_with :: "string \<Rightarrow> string \<Rightarrow> bool" where
  "starts_with s [] = True"
| "starts_with [] (p # ps) = False"
| "starts_with (c # cs) (p # ps) = (c = p \<and> starts_with cs ps)"

text \<open>\<open>sub in s\<close> for strings.\<close>

fun contains :: "string \<Rightarrow> string \<Rightarrow> bool" where
  "contains [] sub = (sub = [])"
| "contains (c # cs) sub = (starts_with (c # cs) sub \<or> contains cs sub)"

text \<open>\<open>s.replace(old, new)\<close> for a single-character \<open>old\<close> and the empty \<open>new\<close>.\<close>

definition remove_char :: "char \<Rightarrow> string \<Rightarrow> string" where
  "remove_char x s = filter (\<lambda>c. c \<noteq> x) s"

definition digit_val :: "char \<Rightarrow> nat" where
  "digit_val c = (of_char c :: nat) - 48"

definition nat_of_digits :: "string \<Rightarrow> nat" where
  "nat_of_digits s = foldl (\<lambda>a c. 10 * a + digit_val c) 0 s"

section \<open>scraper.py: \<open>__standardize_number\<close>\<close>

text \<open>
  The argument comes out of a \<open>DataFrame.to_dict()\<close>: a string, the float NaN, or some other
  number, on which \<open>.strip()\<close> raises AttributeError.
\<close>

datatype raw = Str string | FloatNaN | OtherNumber

definition missing_markers :: "string list" where
  "missing_markers = [''N/A'', ''--'', '''', ''nan'', ''NAN'']"

text \<open>\<open>re.sub(r'[^\d.-]', '', number_str)\<close>.\<close>

definition keep_numeric :: "string \<Rightarrow> string" where
  "keep_numeric s = filter (\<lambda>c. is_digit c \<or> c = CHR ''.'' \<or> c = CHR ''-'') s"

text \<open>
  \<open>int(number_str)\<close> on a string over the digits, \<open>.\<close> and \<open>-\<close> (all that
  \<open>keep_numeric\<close> leaves): an optional leading minus followed by at least one digit;
  anything else is a ValueError, here \<open>None\<close>.  Python integers are unbounded.
\<close>

definition py_int :: "string \<Rightarrow> int option" where
  "py_int s =
     (case s of
        [] \<Rightarrow> None
      | c # cs \<Rightarrow>
          if c = CHR ''-''
          then (if cs \<noteq> [] \<and> list_all is_digit cs then Some (- int (nat_of_digits cs)) else None)
          else (if list_all is_digit s then Some (int (nat_of_digits s)) else None))"

definition standardize_number :: "raw \<Rightarrow> int \<Rightarrow> error + int option" where
  "standardize_number number_str multiplier =
     (case number_str of
        FloatNaN \<Rightarrow> Inr None
      | OtherNumber \<Rightarrow> Inl AttributeError
      | Str s0 \<Rightarrow>
          if strip s0 \<in> set missing_markers then Inr None
          else
            let negative = (CHR ''('' \<in> set s0 \<and> CHR '')'' \<in> set s0);
                s1 = (if negative then remove_char CHR '')'' (remove_char CHR ''('' s0) else s0);
                is_num_currency = (CHR ''$'' \<in> set s1);
                s2 = keep_numeric s1
            in (case py_int s2 of
                  None \<Rightarrow> Inr None
                | Some n \<Rightarrow>
                    (let number = (if negative then - n else n)
                     in Inr (Some (if is_num_currency then number * multiplier else number)))))"

section \<open>scraper.py: \<open>statement_keys_map\<close> and the link resolution of \<open>get_statement_soup\<close>\<close>

definition balance_sheet_keys :: "string list" where
  "balance_sheet_keys =
     [''balance sheet'',
      ''balance sheets'',
      ''statement of financial position'',
      ''consolidated balance sheets'',
      ''consolidated balance sheet'',
      ''consolidated financial position'',
      ''consolidated balance sheets - southern'',
      ''consolidated statements of financial position'',
      ''consolidated statement of financial position'',
      ''consolidated statements of financial condition'',
      ''combined and consolidated balance sheet'',
      ''condensed consolidated balance sheets'',
      ''consolidated balance sheets, as of december 31'',
      ''dow consolidated balance sheets'',
      ''consolidated balance sheets (unaudited)'']"

definition income_statement_keys :: "string list" where
  "income_statement_keys =
     [''income statement'',
      ''income statements'',
      ''statement of earnings (loss)'',
      ''statements of consolidated income'',
      ''consolidated statements of operations'',
      ''consolidated statement of operations'',
      ''consolidated statements of earnings'',
      ''consolidated statement of earnings'',
      ''consolidated statements of income'',
      ''consolidated statement of income'',
      ''consolidated income statements'',
      ''consolidated income statement'',
      ''condensed consolidated statements of earnings'',
      ''condensed consolidated statements of income'',
      ''consolidated results of operations'',
      ''consolidated statements of income (loss)'',
      ''consolidated statements of income - southern'',
      ''consolidated statements of operations and comprehensive income'',
      ''consolidated statements of comprehensive income'',
      ''consolidated statements of comprehensive income (unaudited)'']"

definition cash_flow_statement_keys :: "string list" where
  "cash_flow_statement_keys =
     [''cash flows statement'',
      ''cash flows statements'',
      ''statement of cash flows'',
      ''statements of consolidated cash flows'',
      ''consolidated statements of cash flows'',
      ''consolidated statement of cash flows'',
      ''consolidated statement of cash flow'',
      ''consolidated cash flows statements'',
      ''consolidated cash flow statements'',
      ''condensed consolidated statements of cash flows'',
      ''consolidated statements of cash flows (unaudited)'',
      ''consolidated statements of cash flows - southern'']"

definition statement_keys_map :: "string \<Rightarrow> string list option" where
  "statement_keys_map k =
     (if k = ''balance_sheet'' then Some balance_sheet_keys
      else if k = ''income_statement'' then Some income_statement_keys
      else if k = ''cash_flow_statement'' then Some cash_flow_statement_keys
      else None)"

text \<open>
  The loop over the possible keys: \<open>dict.get\<close> of the lower-cased key, a hit when the file
  name is truthy (present and not the empty string), \<open>break\<close> at the first hit.
\<close>

fun first_file_name :: "(string \<rightharpoonup> string) \<Rightarrow> string list \<Rightarrow> string option" where
  "first_file_name statement_file_name_dict [] = None"
| "first_file_name statement_file_name_dict (possible_key # keys) =
     (case statement_file_name_dict (lower possible_key) of
        None \<Rightarrow> first_file_name statement_file_name_dict keys
      | Some file_name \<Rightarrow>
          if file_name \<noteq> [] then Some file_name
          else first_file_name statement_file_name_dict keys)"

text \<open>
  \<open>get_statement_soup\<close> up to the request: the statement link, or the ValueError
  "Could not find statement file name".
\<close>

definition statement_link ::
  "(string \<rightharpoonup> string) \<Rightarrow> string \<Rightarrow> string \<Rightarrow> error + string" where
  "statement_link statement_file_name_dict base_link statement_name =
     (case first_file_name statement_file_name_dict
             (case statement_keys_map (lower statement_name) of None \<Rightarrow> [] | Some ks \<Rightarrow> ks) of
        None \<Rightarrow> Inl ValueError
      | Some file_name \<Rightarrow> Inr (base_link @ ''/'' @ file_name))"

section \<open>edgar\_functions.py: dates\<close>

text \<open>
  \<open>str.replace(old, new)\<close>: the occurrences of \<open>old\<close> found from the left, without overlap.
  For the empty \<open>old\<close> Python puts \<open>new\<close> before every character and at the end.
\<close>

function replace :: "string \<Rightarrow> string \<Rightarrow> string \<Rightarrow> string" where
  "replace s old new =
     (if old = [] then concat (map (\<lambda>c. new @ [c]) s) @ new
      else (case s of
              [] \<Rightarrow> []
            | c # cs \<Rightarrow>
                if starts_with s old then new @ replace (drop (length old) s) old new
                else c # replace cs old new))"
  by pat_completeness auto
termination
  by (relation "measure (\<lambda>(s, old, new). length s)") auto

declare replace.simps [simp del]

text \<open>\<open>zip(calendar.month_abbr[1:], calendar.month_name[1:])\<close> in the C locale.\<close>

definition month_table :: "(string \<times> string) list" where
  "month_table =
     [(''Jan'', ''January''), (''Feb'', ''February''), (''Mar'', ''March''),
      (''Apr'', ''April''), (''May'', ''May''), (''Jun'', ''June''),
      (''Jul'', ''July''), (''Aug'', ''August''), (''Sep'', ''September''),
      (''Oct'', ''October''), (''Nov'', ''November''), (''Dec'', ''December'')]"

definition standardize_date :: "string \<Rightarrow> string" where
  "standardize_date date = fold (\<lambda>(abbr, full) d. replace d abbr full) month_table date"

record th =
  th_class :: "string list"
  th_div_string :: "string option"

text \<open>
  What the extractor asks of a row: the \<open>onclick\<close> attribute (if any) of each element
  selected by \<open>td.pl a, td.pl.custom a\<close>, and the \<open>td\<close> cells in document order with their
  class lists and texts.
\<close>

record cell =
  cell_class :: "string list"
  cell_text :: string

record row =
  onclick_elements :: "string option list"
  tds :: "cell list"

text \<open>\<open>table_header\<close> is the text of \<open>table.find("th")\<close>, \<open>None\<close> when the table has no \<open>th\<close>.\<close>

record table =
  table_header :: "string option"
  trs :: "row list"

record soup =
  ths :: "th list"
  tables :: "table list"

text \<open>
  \<open>pd.to_datetime\<close> belongs to pandas: it is the parameter \<open>to_datetime\<close>, which returns
  the date index or raises.
\<close>

definition get_datetime_index_dates_from_statement ::
  "(string list \<Rightarrow> error + 'd list) \<Rightarrow> soup \<Rightarrow> error + 'd list" where
  "get_datetime_index_dates_from_statement to_datetime sp =
     (let table_headers = filter (\<lambda>h. ''th'' \<in> set (th_class h)) (ths sp);
          dates = concat (map (\<lambda>h. case th_div_string h of
                                        None \<Rightarrow> []
                                      | Some s \<Rightarrow> if s \<noteq> [] then [s] else []) table_headers);
          dates' = map (\<lambda>date. remove_char CHR ''.'' (standardize_date date)) dates
      in to_datetime dates')"

section \<open>edgar\_functions.py: the table extractor\<close>

text \<open>
  \<open>s.split(sep)\<close> for a non-empty separator (the two separators of the source are
  constants): the pieces between the occurrences of \<open>sep\<close>, found from the left without
  overlap.  The result is never empty, so \<open>[-1]\<close> and \<open>[0]\<close> are defined.
\<close>

function split :: "string \<Rightarrow> string \<Rightarrow> string list" where
  "split s sep =
     (case s of
        [] \<Rightarrow> [[]]
      | c # cs \<Rightarrow>
          if sep \<noteq> [] \<and> starts_with s sep then [] # split (drop (length sep) s) sep
          else (case split cs sep of
                  [] \<Rightarrow> [[c]]
                | p # ps \<Rightarrow> (c # p) # ps))"
  by pat_completeness auto
termination
  by (relation "measure (\<lambda>(s, sep). length s)") auto

declare split.simps [simp del]

definition column_title_of :: "string \<Rightarrow> string" where
  "column_title_of onclick_attr = hd (split (last (split onclick_attr ''defref_'')) [CHR 0x27, CHR '',''])"

definition keep_numbers_and_decimals_only_in_string :: "string \<Rightarrow> string" where
  "keep_numbers_and_decimals_only_in_string mixed_string =
     filter (\<lambda>x. x \<in> set ''1234567890.'') mixed_string"

text \<open>
  \<open>float(value)\<close> on a string over the digits and \<open>.\<close> (all that the filter above leaves):
  digits with at most one point and at least one digit; anything else is a ValueError.
  The value is the exact decimal, a rational: the rounding of binary64 is not modelled
  (integers below \<open>2^53\<close> are exact in both).
\<close>

definition py_float :: "string \<Rightarrow> error + rat" where
  "py_float s =
     (let ip = takeWhile (\<lambda>c. c \<noteq> CHR ''.'') s;
          rest = dropWhile (\<lambda>c. c \<noteq> CHR ''.'') s
      in if \<not> list_all is_digit ip then Inl ValueError
         else if rest = [] then (if ip = [] then Inl ValueError else Inr (of_nat (nat_of_digits ip)))
         else (let fp = tl rest
               in if \<not> list_all is_digit fp \<or> (ip = [] \<and> fp = []) then Inl ValueError
                  else Inr (of_nat (nat_of_digits (ip @ fp)) / 10 ^ length fp)))"

text \<open>The cleaning of a cell's text before \<open>float\<close>.\<close>

definition clean_cell_text :: "string \<Rightarrow> string" where
  "clean_cell_text t =
     keep_numbers_and_decimals_only_in_string
       (strip (remove_char CHR '')'' (remove_char CHR ''('' (remove_char CHR '','' (remove_char CHR ''$'' t)))))"

text \<open>
  The body of the loop over the cells of a row, up to the assignment: \<open>Inr None\<close> when
  nothing is assigned (a text cell, an empty cleaned string, a special-case table, where
  the quotient \<open>value / 1000\<close> stays in the local variable), \<open>Inr (Some x)\<close> for the float to
  assign, \<open>Inl\<close> when \<open>float\<close> raises.
\<close>

definition cell_value :: "bool \<Rightarrow> int \<Rightarrow> cell \<Rightarrow> error + rat option" where
  "cell_value special_case unit_multiplier c =
     (if ''text'' \<in> set (cell_class c) then Inr None
      else
        (let v = clean_cell_text (cell_text c)
         in if v = [] then Inr None
            else (case py_float v of
                    Inl e \<Rightarrow> Inl e
                  | Inr x \<Rightarrow>
                      if special_case then Inr None
                      else if ''nump'' \<in> set (cell_class c)
                      then Inr (Some (x * of_int unit_multiplier))
                      else Inr (Some (- x * of_int unit_multiplier)))))"

text \<open>
  The loop \<open>for i, cell in enumerate(row.select("td.text, td.nump, td.num"))\<close>.  The values
  are floats or NaN; NaN is \<open>None\<close>.  An assignment \<open>values[i] = ...\<close> with \<open>i\<close> beyond the
  list raises IndexError.
\<close>

fun process_cells ::
  "bool \<Rightarrow> int \<Rightarrow> nat \<Rightarrow> cell list \<Rightarrow> rat option list \<Rightarrow> error + rat option list" where
  "process_cells special_case unit_multiplier i [] vals = Inr vals"
| "process_cells special_case unit_multiplier i (c # cs) vals =
     (case cell_value special_case unit_multiplier c of
        Inl e \<Rightarrow> Inl e
      | Inr None \<Rightarrow> process_cells special_case unit_multiplier (Suc i) cs vals
      | Inr (Some x) \<Rightarrow>
          if i < length vals
          then process_cells special_case unit_multiplier (Suc i) cs (vals[i := Some x])
          else Inl IndexError)"

definition select_value_cells :: "row \<Rightarrow> cell list" where
  "select_value_cells r =
     filter (\<lambda>c. ''text'' \<in> set (cell_class c) \<or> ''nump'' \<in> set (cell_class c)
                 \<or> ''num'' \<in> set (cell_class c)) (tds r)"

text \<open>
  The loop over the rows of one table, threading \<open>columns\<close> and \<open>values_set\<close>.  A row
  without a label link is skipped; a first link without \<open>onclick\<close> is a KeyError.
\<close>

fun process_rows ::
  "bool \<Rightarrow> int \<Rightarrow> nat \<Rightarrow> row list \<Rightarrow> string list \<times> rat option list list
     \<Rightarrow> error + (string list \<times> rat option list list)" where
  "process_rows special_case unit_multiplier m [] acc = Inr acc"
| "process_rows special_case unit_multiplier m (r # rs) (columns, values_set) =
     (case onclick_elements r of
        [] \<Rightarrow> process_rows special_case unit_multiplier m rs (columns, values_set)
      | a # _ \<Rightarrow>
          (case a of
             None \<Rightarrow> Inl KeyError
           | Some onclick_attr \<Rightarrow>
               (case process_cells special_case unit_multiplier 0 (select_value_cells r)
                       (replicate m None) of
                  Inl e \<Rightarrow> Inl e
                | Inr vals \<Rightarrow>
                    process_rows special_case unit_multiplier m rs
                      (columns @ [column_title_of onclick_attr], values_set @ [vals]))))"

definition unit_multiplier_of :: "string option \<Rightarrow> int" where
  "unit_multiplier_of header =
     (case header of
        None \<Rightarrow> 1
      | Some header_text \<Rightarrow>
          if contains header_text ''in Thousands'' then 1
          else if contains header_text ''in Millions'' then 1000
          else 1)"

definition special_case_of :: "string option \<Rightarrow> bool" where
  "special_case_of header =
     (case header of
        None \<Rightarrow> False
      | Some header_text \<Rightarrow> contains header_text ''unless otherwise specified'')"

fun process_tables ::
  "nat \<Rightarrow> table list \<Rightarrow> string list \<times> rat option list list
     \<Rightarrow> error + (string list \<times> rat option list list)" where
  "process_tables m [] acc = Inr acc"
| "process_tables m (t # ts) acc =
     (case process_rows (special_case_of (table_header t)) (unit_multiplier_of (table_header t))
             m (trs t) acc of
        Inl e \<Rightarrow> Inl e
      | Inr acc' \<Rightarrow> process_tables m ts acc')"

definition extract_columns_values_and_dates_from_statement ::
  "(string list \<Rightarrow> error + 'd list) \<Rightarrow> soup
     \<Rightarrow> error + (string list \<times> rat option list list \<times> 'd list)" where
  "extract_columns_values_and_dates_from_statement to_datetime sp =
     (case get_datetime_index_dates_from_statement to_datetime sp of
        Inl e \<Rightarrow> Inl e
      | Inr date_time_index \<Rightarrow>
          (case process_tables (length date_time_index) (tables sp) ([], []) of
             Inl e \<Rightarrow> Inl e
           | Inr (columns, values_set) \<Rightarrow> Inr (columns, values_set, date_time_index)))"

text \<open>
  The rows the extractor keeps, each with its table, in the order of the two loops: a row
  without a label link is passed over by \<open>continue\<close>.
\<close>

definition labelled_rows :: "soup \<Rightarrow> (table \<times> row) list" where
  "labelled_rows sp =
     concat (map (\<lambda>t. map (Pair t) (filter (\<lambda>r. onclick_elements r \<noteq> []) (trs t))) (tables sp))"

section \<open>edgar\_functions.py: the data frame of a statement\<close>

text \<open>
  A pandas \<open>DataFrame\<close> as far as the scraper uses it: the row labels (\<open>index\<close>), the
  column labels and the rows of values, every row as long as the column labels.
\<close>

record ('i, 'c) frame =
  frame_index :: "'i list"
  frame_columns :: "'c list"
  frame_data :: "rat option list list"

text \<open>\<open>list(zip(*values_set))\<close>: as many tuples as the shortest row has values.\<close>

definition zip_star :: "'a list list \<Rightarrow> 'a list list" where
  "zip_star xss =
     (case xss of
        [] \<Rightarrow> []
      | xs # rest \<Rightarrow>
          map (\<lambda>i. map (\<lambda>r. r ! i) xss)
            [0 ..< fold (\<lambda>r n. min (length r) n) rest (length xs)])"

text \<open>
  \<open>pd.DataFrame(data, columns=..., index=...)\<close> on a list of equally long tuples: with no
  tuple at all the frame has the given labels and only NaN; otherwise the width of the
  tuples and their number must fit the labels, or pandas raises a ValueError.
\<close>

definition DataFrame ::
  "rat option list list \<Rightarrow> 'c list \<Rightarrow> 'i list \<Rightarrow> error + ('i, 'c) frame" where
  "DataFrame data cols idx =
     (if data = []
      then Inr \<lparr>frame_index = idx, frame_columns = cols,
                frame_data = replicate (length idx) (replicate (length cols) None)\<rparr>
      else if list_ex (\<lambda>r. length r \<noteq> length cols) data \<or> length data \<noteq> length idx
      then Inl ValueError
      else Inr \<lparr>frame_index = idx, frame_columns = cols, frame_data = data\<rparr>)"

definition create_dataframe_of_statement_values_columns_dates ::
  "rat option list list \<Rightarrow> string list \<Rightarrow> 'd list \<Rightarrow> error + ('d, string) frame" where
  "create_dataframe_of_statement_values_columns_dates values_set columns index_dates =
     DataFrame (zip_star values_set) columns index_dates"

text \<open>\<open>df.empty\<close>: one of the axes has length 0.\<close>

definition frame_empty :: "('i, 'c) frame \<Rightarrow> bool" where
  "frame_empty df = (frame_index df = [] \<or> frame_columns df = [])"

text \<open>\<open>df.T\<close>.\<close>

definition frame_T :: "('i, 'c) frame \<Rightarrow> ('c, 'i) frame" where
  "frame_T df =
     \<lparr>frame_index = frame_columns df, frame_columns = frame_index df,
      frame_data = map (\<lambda>j. map (\<lambda>r. r ! j) (frame_data df)) [0 ..< length (frame_columns df)]\<rparr>"

text \<open>
  \<open>df.drop_duplicates()\<close>: a row is a duplicate when an earlier row has the same values in
  every column (NaN counts as equal to NaN); the labels are not compared.  The first of
  equal rows is kept.
\<close>

fun keep_first ::
  "rat option list list \<Rightarrow> ('i \<times> rat option list) list \<Rightarrow> ('i \<times> rat option list) list" where
  "keep_first seen [] = []"
| "keep_first seen ((l, r) # rest) =
     (if r \<in> set seen then keep_first seen rest else (l, r) # keep_first (r # seen) rest)"

definition drop_duplicates :: "('i, 'c) frame \<Rightarrow> ('i, 'c) frame" where
  "drop_duplicates df =
     (let kept = keep_first [] (zip (frame_index df) (frame_data df))
      in df\<lparr>frame_index := map fst kept, frame_data := map snd kept\<rparr>)"

text \<open>
  The statements of \<open>get_one_statement\<close> between the extraction and the \<open>return\<close>: the
  frame is built, an empty frame gives \<open>None\<close>, otherwise the transposed frame without its
  duplicate rows is the result.  They run inside the \<open>try\<close>, so an exception of the frame
  constructor gives \<open>None\<close> as well.
\<close>

definition frame_of_statement ::
  "rat option list list \<Rightarrow> string list \<Rightarrow> 'd list \<Rightarrow> (string, 'd) frame option" where
  "frame_of_statement vals columns dates =
     (case create_dataframe_of_statement_values_columns_dates vals columns dates of
        Inl e \<Rightarrow> None
      | Inr df \<Rightarrow> if \<not> frame_empty df then Some (drop_duplicates (frame_T df)) else None)"


section \<open>Auxiliary notions for the month replacement\<close>

text \<open>The abbreviations that differ from the full name: all but \<open>May\<close>.\<close>

definition other_abbreviations :: "string list" where
  "other_abbreviations = map fst (filter (\<lambda>(abbr, full). abbr \<noteq> full) month_table)"

text \<open>A replacement table whose steps never shorten a string.\<close>

definition table_ok :: "(string \<times> string) list \<Rightarrow> bool" where
  "table_ok tbl = (\<forall>(a, f) \<in> set tbl. a \<noteq> [] \<and> (a = f \<or> length a < length f))"

section \<open>Example inputs\<close>

definition example_catalog :: "string \<rightharpoonup> string" where
  "example_catalog = [''balance sheets'' \<mapsto> ''R2.htm'', ''balance sheet'' \<mapsto> ''R3.htm'']"

definition later_catalog :: "string \<rightharpoonup> string" where
  "later_catalog = [''balance sheets'' \<mapsto> ''R2.htm'', ''consolidated balance sheets'' \<mapsto> ''R4.htm'']"

text \<open>A statement with four date columns and one data row with two populated cells.\<close>

definition four_dates_header :: string where
  "four_dates_header = ''Consolidated Balance Sheets - USD ($) $ in Millions''"

definition four_dates_row :: row where
  "four_dates_row =
     \<lparr>onclick_elements = [Some ''top.Show.showAR( this, 'defref_us-gaap_Assets', window );''],
      tds = [\<lparr>cell_class = [''pl''], cell_text = ''Total assets''\<rparr>,
             \<lparr>cell_class = [''nump''], cell_text = ''$ 10''\<rparr>,
             \<lparr>cell_class = [''num''], cell_text = ''(20)''\<rparr>]\<rparr>"

definition four_dates_soup :: soup where
  "four_dates_soup =
     \<lparr>ths = [\<lparr>th_class = [''tl''], th_div_string = None\<rparr>,
             \<lparr>th_class = [''th''], th_div_string = Some ''Dec. 31, 2020''\<rparr>,
             \<lparr>th_class = [''th''], th_div_string = Some ''Dec. 31, 2019''\<rparr>,
             \<lparr>th_class = [''th''], th_div_string = Some ''Dec. 31, 2018''\<rparr>,
             \<lparr>th_class = [''th''], th_div_string = Some ''Dec. 31, 2017''\<rparr>],
      tables = [\<lparr>table_header = Some four_dates_header,
                 trs = [\<lparr>onclick_elements = [], tds = []\<rparr>, four_dates_row]\<rparr>]\<rparr>"

text \<open>A special-case table with one date column and the currency cell \<open>$2,000,000\<close>.\<close>

definition special_case_header :: string where
  "special_case_header = ''Balance Sheet (USD $) in Millions, unless otherwise specified''"

definition special_case_row :: row where
  "special_case_row =
     \<lparr>onclick_elements = [Some ''top.Show.showAR( this, 'defref_us-gaap_Assets', window );''],
      tds = [\<lparr>cell_class = [''pl''], cell_text = ''Total assets''\<rparr>,
             \<lparr>cell_class = [''nump''], cell_text = ''$2,000,000''\<rparr>]\<rparr>"

definition special_case_soup :: soup where
  "special_case_soup =
     \<lparr>ths = [\<lparr>th_class = [''th''], th_div_string = Some ''Jan. 31, 2020''\<rparr>],
      tables = [\<lparr>table_header = Some special_case_header, trs = [special_case_row]\<rparr>]\<rparr>"







definition plain_number_row :: row where
  "plain_number_row =
     \<lparr>onclick_elements = [Some ''top.Show.showAR( this, 'defref_us-gaap_Assets', window );''],
      tds = [\<lparr>cell_class = [''pl''], cell_text = ''Total assets''\<rparr>,
             \<lparr>cell_class = [''nump''], cell_text = ''1,234''\<rparr>]\<rparr>"

definition plain_number_soup :: soup where
  "plain_number_soup =
     \<lparr>ths = [\<lparr>th_class = [''th''], th_div_string = Some ''Jan. 31, 2020''\<rparr>],
      tables = [\<lparr>table_header = Some four_dates_header, trs = [plain_number_row]\<rparr>]\<rparr>"

section \<open>Facts about characters and stripping\<close>

lemma numeric_chars:
  "(is_digit c \<or> c = CHR ''.'' \<or> c = CHR ''-'') = (c \<in> set ''0123456789.-'')"
  by (simp add: is_digit_def)

lemma space_chars_disjoint:
  "set ''0123456789.-'' \<inter> set [CHR 0x09, CHR 0x0A, CHR 0x0B, CHR 0x0C, CHR 0x0D,
                CHR 0x1C, CHR 0x1D, CHR 0x1E, CHR 0x1F, CHR '' ''] = {}"
  by simp

lemma upper_chars_disjoint:
  "set ''0123456789.-'' \<inter> set ''ABCDEFGHIJKLMNOPQRSTUVWXYZ'' = {}"
  by simp

lemma marker_chars_disjoint: "set ''0123456789.-'' \<inter> set ''n/a'' = {}"
  by simp

lemma space_not_numeric: "is_space c \<Longrightarrow> \<not> (is_digit c \<or> c = CHR ''.'' \<or> c = CHR ''-'')"
  unfolding numeric_chars is_space_def using space_chars_disjoint by blast

lemma lower_char_id: "c \<notin> set ''ABCDEFGHIJKLMNOPQRSTUVWXYZ'' \<Longrightarrow> lower_char c = c"
  unfolding lower_char_def by (subst map_of_zip_is_None[THEN iffD2]) simp_all

lemma numeric_lower: "is_digit c \<or> c = CHR ''.'' \<or> c = CHR ''-'' \<Longrightarrow> lower_char c = c"
  unfolding numeric_chars using upper_chars_disjoint lower_char_id by blast

lemma lower_char_range:
  "lower_char c = c \<or> lower_char c \<in> set ''abcdefghijklmnopqrstuvwxyz''"
proof (cases "map_of (zip ''ABCDEFGHIJKLMNOPQRSTUVWXYZ'' ''abcdefghijklmnopqrstuvwxyz'') c")
  case None
  then show ?thesis by (simp add: lower_char_def)
next
  case (Some l)
  then have "(c, l) \<in> set (zip ''ABCDEFGHIJKLMNOPQRSTUVWXYZ'' ''abcdefghijklmnopqrstuvwxyz'')"
    by (rule map_of_SomeD)
  then have "l \<in> set ''abcdefghijklmnopqrstuvwxyz''"
    by (rule set_zip_rightD)
  then show ?thesis using Some by (simp add: lower_char_def)
qed

lemma dash_not_lower: "CHR ''-'' \<notin> set ''abcdefghijklmnopqrstuvwxyz''"
  by simp

lemma lower_char_dash: "lower_char c = CHR ''-'' \<Longrightarrow> c = CHR ''-''"
  using lower_char_range[of c] dash_not_lower by metis

lemma lower_eq_dashes:
  assumes "lower t = ''--''"
  shows "t = ''--''"
proof -
  from assms obtain x y where t: "t = [x, y]"
    and x: "lower_char x = CHR ''-''" and y: "lower_char y = CHR ''-''"
    unfolding lower_def by (auto simp: map_eq_Cons_conv)
  from x have "x = CHR ''-''" by (rule lower_char_dash)
  moreover from y have "y = CHR ''-''" by (rule lower_char_dash)
  ultimately show ?thesis using t by simp
qed

lemma set_dropWhile_cover: "set xs \<subseteq> set (dropWhile P xs) \<union> Collect P"
  by (induction xs) auto

lemma set_strip_cover: "set s \<subseteq> set (strip s) \<union> Collect is_space"
proof -
  have "set s \<subseteq> set (dropWhile is_space s) \<union> Collect is_space"
    by (rule set_dropWhile_cover)
  moreover have "set (dropWhile is_space s)
      \<subseteq> set (dropWhile is_space (rev (dropWhile is_space s))) \<union> Collect is_space"
    using set_dropWhile_cover[of "rev (dropWhile is_space s)" is_space] by simp
  ultimately show ?thesis unfolding strip_def by auto
qed

section \<open>\<open>__standardize_number\<close>: missing markers and decimal points\<close>

lemma py_int_Nil: "py_int [] = None"
  by (simp add: py_int_def)

lemma keep_numeric_empty_iff:
  "keep_numeric s = [] \<longleftrightarrow> (\<forall>c \<in> set s. \<not> (is_digit c \<or> c = CHR ''.'' \<or> c = CHR ''-''))"
  by (auto simp add: keep_numeric_def filter_empty_conv)

lemma standardize_number_no_numeric:
  assumes "\<forall>c \<in> set s. \<not> (is_digit c \<or> c = CHR ''.'' \<or> c = CHR ''-'')"
  shows "standardize_number (Str s) m = Inr None"
proof -
  have a: "keep_numeric s = []"
    using assms by (simp add: keep_numeric_empty_iff)
  have "\<forall>c \<in> set (remove_char CHR '')'' (remove_char CHR ''('' s)).
          \<not> (is_digit c \<or> c = CHR ''.'' \<or> c = CHR ''-'')"
    using assms by (simp add: remove_char_def)
  then have b: "keep_numeric (remove_char CHR '')'' (remove_char CHR ''('' s)) = []"
    by (simp only: keep_numeric_empty_iff)
  show ?thesis
    by (simp add: standardize_number_def Let_def a b py_int_Nil)
qed

lemma lower_marker_chars:
  assumes "lower t = ''n/a'' \<or> lower t = ''nan''" and "c \<in> set t"
  shows "\<not> (is_digit c \<or> c = CHR ''.'' \<or> c = CHR ''-'')"
proof
  assume k: "is_digit c \<or> c = CHR ''.'' \<or> c = CHR ''-''"
  have "lower_char c \<in> set (lower t)" using assms(2) by (simp add: lower_def)
  then have "c \<in> set (lower t)" using numeric_lower[OF k] by simp
  then have "c \<in> set ''n/a''" using assms(1) by auto
  moreover have "c \<in> set ''0123456789.-''" using k by (simp only: numeric_chars)
  ultimately show False using marker_chars_disjoint by blast
qed

lemma lower_missing_markers:
  "map lower missing_markers = [''n/a'', ''--'', [], ''nan'', ''nan'']"
  by code_simp

text \<open>
  C7.  A string whose stripped form is one of the missing markers \<open>N/A\<close>, \<open>--\<close>, the empty
  string, \<open>nan\<close>, \<open>NAN\<close>, in any mix of upper and lower case, is standardized to \<open>None\<close>
  (never to zero) for every multiplier; so is every string in which no digit, point or
  minus sign is left after the characters are stripped.
\<close>

theorem standardize_number_missing_markers:
  "(lower (strip s) \<in> set (map lower missing_markers) \<longrightarrow> standardize_number (Str s) m = Inr None)
   \<and> (keep_numeric s = [] \<longrightarrow> standardize_number (Str s) m = Inr None)"
proof (intro conjI impI)
  assume "keep_numeric s = []"
  then show "standardize_number (Str s) m = Inr None"
    by (simp add: keep_numeric_empty_iff standardize_number_no_numeric)
next
  assume "lower (strip s) \<in> set (map lower missing_markers)"
  then consider "lower (strip s) = ''--''" | "lower (strip s) = []"
    | "lower (strip s) = ''n/a'' \<or> lower (strip s) = ''nan''"
    unfolding lower_missing_markers by auto
  then show "standardize_number (Str s) m = Inr None"
  proof cases
    case 1
    then have "strip s = ''--''" by (rule lower_eq_dashes)
    then have "strip s \<in> set missing_markers"
      by (simp add: missing_markers_def)
    then show ?thesis by (simp add: standardize_number_def)
  next
    case 2
    then have "strip s \<in> set missing_markers"
      by (simp add: lower_def missing_markers_def)
    then show ?thesis by (simp add: standardize_number_def)
  next
    case 3
    have "\<forall>c \<in> set s. \<not> (is_digit c \<or> c = CHR ''.'' \<or> c = CHR ''-'')"
    proof
      fix c assume "c \<in> set s"
      then have "c \<in> set (strip s) \<or> is_space c" using set_strip_cover[of s] by auto
      then show "\<not> (is_digit c \<or> c = CHR ''.'' \<or> c = CHR ''-'')"
        using lower_marker_chars[OF 3] space_not_numeric by blast
    qed
    then show ?thesis by (rule standardize_number_no_numeric)
  qed
qed

theorem standardize_number_missing_markers_witness:
  "lower (strip '' NaN '') \<in> set (map lower missing_markers)
   \<and> standardize_number (Str '' NaN '') 7 = Inr None
   \<and> keep_numeric ''$ n/a'' = []
   \<and> standardize_number (Str ''$ n/a'') 7 = Inr None"
proof -
  have a: "lower (strip '' NaN '') \<in> set (map lower missing_markers)"
    by (simp add: lower_def lower_char_def strip_def is_space_def missing_markers_def)
  have b: "keep_numeric ''$ n/a'' = []"
    by (simp add: keep_numeric_def is_digit_def)
  show ?thesis
    using a b standardize_number_missing_markers[of "'' NaN ''" 7]
      standardize_number_missing_markers[of "''$ n/a''" 7]
    by blast
qed

lemma point_not_digit: "\<not> is_digit CHR ''.''"
  by (simp add: is_digit_def)

lemma py_int_point:
  assumes "CHR ''.'' \<in> set t"
  shows "py_int t = None"
proof (cases t)
  case Nil
  then show ?thesis using assms by simp
next
  case (Cons c cs)
  show ?thesis
  proof (cases "c = CHR ''-''")
    case True
    then have "CHR ''.'' \<in> set cs" using assms Cons by auto
    then have "\<not> list_all is_digit cs"
      using point_not_digit by (auto simp: list_all_iff)
    then show ?thesis using Cons True by (simp add: py_int_def)
  next
    case False
    have "\<not> list_all is_digit t"
      using assms point_not_digit by (auto simp: list_all_iff)
    then show ?thesis using Cons False by (simp add: py_int_def)
  qed
qed

text \<open>Every string with a decimal point is standardized to \<open>None\<close>: \<open>int\<close> rejects it.\<close>

lemma standardize_number_point:
  assumes "CHR ''.'' \<in> set s"
  shows "standardize_number (Str s) m = Inr None"
proof -
  have a: "py_int (keep_numeric s) = None"
    using assms by (intro py_int_point) (simp add: keep_numeric_def)
  have b: "py_int (keep_numeric (remove_char CHR '')'' (remove_char CHR ''('' s))) = None"
    using assms by (intro py_int_point) (simp add: keep_numeric_def remove_char_def)
  show ?thesis
    by (simp add: standardize_number_def Let_def a b)
qed

text \<open>
  C6.  The claim is that a string with fractional digits such as \<open>1234.5\<close> is parsed to
  the truncated integer 1234.  The code keeps the decimal point and then calls \<open>int\<close>,
  which raises on it: the result is \<open>None\<close>.
\<close>

theorem standardize_number_fraction_is_None:
  "standardize_number (Str ''1234.5'') 1 = Inr None"
  by (rule standardize_number_point) simp

section \<open>The statement locator\<close>

lemma first_file_name_hit:
  "i < length keys \<Longrightarrow> dict (lower (keys ! i)) = Some f \<Longrightarrow> f \<noteq> [] \<Longrightarrow>
   (\<forall>j<i. dict (lower (keys ! j)) = None \<or> dict (lower (keys ! j)) = Some []) \<Longrightarrow>
   first_file_name dict keys = Some f"
proof (induction keys arbitrary: i)
  case Nil
  then show ?case by simp
next
  case (Cons k keys)
  show ?case
  proof (cases i)
    case 0
    then show ?thesis using Cons.prems by simp
  next
    case (Suc i')
    have skip: "dict (lower k) = None \<or> dict (lower k) = Some []"
      using Cons.prems(4) Suc by (metis nth_Cons_0 zero_less_Suc)
    have rest: "first_file_name dict keys = Some f"
    proof (rule Cons.IH[of i'])
      show "i' < length keys" using Cons.prems(1) Suc by simp
      show "dict (lower (keys ! i')) = Some f" using Cons.prems(2) Suc by simp
      show "f \<noteq> []" by (rule Cons.prems(3))
      show "\<forall>j<i'. dict (lower (keys ! j)) = None \<or> dict (lower (keys ! j)) = Some []"
      proof (intro allI impI)
        fix j assume "j < i'"
        then have "Suc j < i" using Suc by simp
        then show "dict (lower (keys ! j)) = None \<or> dict (lower (keys ! j)) = Some []"
          using Cons.prems(4) by (metis nth_Cons_Suc)
      qed
    qed
    show ?thesis using skip rest by auto
  qed
qed

lemma lower_balance_sheet: "lower ''balance_sheet'' = ''balance_sheet''"
  by code_simp

lemma example_catalog_first: "first_file_name example_catalog balance_sheet_keys = Some ''R3.htm''"
  by code_simp

lemma example_catalog_link:
  "statement_link example_catalog base ''balance_sheet'' = Inr (base @ ''/R3.htm'')"
  by (simp add: statement_link_def lower_balance_sheet statement_keys_map_def example_catalog_first)

text \<open>
  C4, as stated: for the catalog with \<open>balance sheets\<close> in \<open>R2.htm\<close> and \<open>balance sheet\<close> in
  \<open>R3.htm\<close> the claim expects \<open>R2.htm\<close>.  The table declares \<open>balance sheet\<close> first, so the
  link ends in \<open>R3.htm\<close>.
\<close>

theorem statement_link_R2_counterexample:
  "statement_link [''balance sheets'' \<mapsto> ''R2.htm'', ''balance sheet'' \<mapsto> ''R3.htm'']
     ''https://www.sec.gov/Archives/edgar/data/320193/000032019320000096'' ''balance_sheet''
   = Inr ''https://www.sec.gov/Archives/edgar/data/320193/000032019320000096/R3.htm''
   \<and> statement_link [''balance sheets'' \<mapsto> ''R2.htm'', ''balance sheet'' \<mapsto> ''R3.htm'']
     ''https://www.sec.gov/Archives/edgar/data/320193/000032019320000096'' ''balance_sheet''
   \<noteq> Inr ''https://www.sec.gov/Archives/edgar/data/320193/000032019320000096/R2.htm''"
  using example_catalog_link[of "''https://www.sec.gov/Archives/edgar/data/320193/000032019320000096''"]
  by (simp add: example_catalog_def)

text \<open>
  C4, amended.  The link resolution walks the synonyms of the requested statement in
  their declared order and takes the file of the first synonym that the catalog maps to
  a non-empty file name, whatever later synonyms match.  In the declared order
  \<open>balance sheet\<close> comes before \<open>balance sheets\<close>, so for the catalog of the claim the result
  is \<open>R3.htm\<close>.
\<close>

theorem statement_link_first_match:
  "(statement_keys_map (lower statement_name) = Some keys \<and> i < length keys
      \<and> dict (lower (keys ! i)) = Some f \<and> f \<noteq> []
      \<and> (\<forall>j<i. dict (lower (keys ! j)) = None \<or> dict (lower (keys ! j)) = Some [])
    \<longrightarrow> statement_link dict base statement_name = Inr (base @ ''/'' @ f))
   \<and> balance_sheet_keys ! 0 = ''balance sheet'' \<and> balance_sheet_keys ! 1 = ''balance sheets''
   \<and> statement_link [''balance sheets'' \<mapsto> ''R2.htm'', ''balance sheet'' \<mapsto> ''R3.htm'']
        base ''balance_sheet'' = Inr (base @ ''/R3.htm'')"
proof (intro conjI impI)
  assume h: "statement_keys_map (lower statement_name) = Some keys \<and> i < length keys
      \<and> dict (lower (keys ! i)) = Some f \<and> f \<noteq> []
      \<and> (\<forall>j<i. dict (lower (keys ! j)) = None \<or> dict (lower (keys ! j)) = Some [])"
  then have "first_file_name dict keys = Some f"
    using first_file_name_hit[of i keys dict f] by blast
  then show "statement_link dict base statement_name = Inr (base @ ''/'' @ f)"
    using h by (simp add: statement_link_def)
next
  show "balance_sheet_keys ! 0 = ''balance sheet''" by (simp add: balance_sheet_keys_def)
  show "balance_sheet_keys ! 1 = ''balance sheets''" by (simp add: balance_sheet_keys_def)
  show "statement_link [''balance sheets'' \<mapsto> ''R2.htm'', ''balance sheet'' \<mapsto> ''R3.htm'']
        base ''balance_sheet'' = Inr (base @ ''/R3.htm'')"
    using example_catalog_link[of base] by (simp add: example_catalog_def)
qed

lemma later_catalog_0: "later_catalog (lower (balance_sheet_keys ! 0)) = None"
  by code_simp

lemma later_catalog_1: "later_catalog (lower (balance_sheet_keys ! 1)) = Some ''R2.htm''"
  by code_simp

lemma later_catalog_3: "later_catalog (lower (balance_sheet_keys ! 3)) = Some ''R4.htm''"
  by code_simp

lemma balance_sheet_keys_length: "length balance_sheet_keys = 15"
  by (simp add: balance_sheet_keys_def)

theorem statement_link_first_match_witness:
  "statement_keys_map (lower ''balance_sheet'') = Some balance_sheet_keys
   \<and> 1 < length balance_sheet_keys
   \<and> later_catalog (lower (balance_sheet_keys ! 1)) = Some ''R2.htm'' \<and> ''R2.htm'' \<noteq> []
   \<and> later_catalog (lower (balance_sheet_keys ! 0)) = None
   \<and> later_catalog (lower (balance_sheet_keys ! 3)) = Some ''R4.htm''
   \<and> statement_link later_catalog ''B'' ''balance_sheet'' = Inr ''B/R2.htm''"
proof -
  have k: "statement_keys_map (lower ''balance_sheet'') = Some balance_sheet_keys"
    by (simp add: lower_balance_sheet statement_keys_map_def)
  have skip: "\<forall>j<1. later_catalog (lower (balance_sheet_keys ! j)) = None
             \<or> later_catalog (lower (balance_sheet_keys ! j)) = Some []"
    using later_catalog_0 by simp
  have "statement_link later_catalog ''B'' ''balance_sheet'' = Inr (''B'' @ ''/'' @ ''R2.htm'')"
    using statement_link_first_match[of "''balance_sheet''" balance_sheet_keys 1 later_catalog
        "''R2.htm''" "''B''"] k skip later_catalog_1 balance_sheet_keys_length
    by simp
  then show ?thesis
    using k later_catalog_0 later_catalog_1 later_catalog_3 balance_sheet_keys_length by simp
qed

section \<open>The month replacement of \<open>__standardize_date\<close>\<close>

lemma starts_with_length: "starts_with s p \<Longrightarrow> length p \<le> length s"
  by (induction s p rule: starts_with.induct) auto

lemma replace_Nil: "old \<noteq> [] \<Longrightarrow> replace [] old new = []"
  by (simp add: replace.simps)

lemma replace_Cons:
  "old \<noteq> [] \<Longrightarrow> replace (c # cs) old new =
     (if starts_with (c # cs) old then new @ replace (drop (length old) (c # cs)) old new
      else c # replace cs old new)"
  by (subst replace.simps) simp

lemma replace_absent:
  "old \<noteq> [] \<Longrightarrow> \<not> contains s old \<Longrightarrow> replace s old new = s"
  by (induction s) (auto simp: replace_Nil replace_Cons)

lemma replace_length_mono:
  "old \<noteq> [] \<Longrightarrow> length old \<le> length new \<Longrightarrow> length s \<le> length (replace s old new)"
proof (induction s old new rule: replace.induct)
  case (1 s old new)
  show ?case
  proof (cases s)
    case Nil
    then show ?thesis using 1 by (simp add: replace_Nil)
  next
    case (Cons c cs)
    show ?thesis
    proof (cases "starts_with s old")
      case True
      have "length (drop (length old) s) \<le> length (replace (drop (length old) s) old new)"
        using "1.IH"(1)[OF "1.prems"(1) Cons True] "1.prems" by simp
      moreover have "length old \<le> length s" using True by (rule starts_with_length)
      ultimately show ?thesis using Cons True "1.prems" by (simp add: replace_Cons)
    next
      case False
      have "length cs \<le> length (replace cs old new)"
        using "1.IH"(2)[OF "1.prems"(1) Cons False] "1.prems" by simp
      then show ?thesis using Cons False "1.prems" by (simp add: replace_Cons)
    qed
  qed
qed

lemma replace_length_grows:
  "old \<noteq> [] \<Longrightarrow> length old < length new \<Longrightarrow> contains s old \<Longrightarrow>
   length s < length (replace s old new)"
proof (induction s)
  case Nil
  then show ?case by simp
next
  case (Cons c cs)
  show ?case
  proof (cases "starts_with (c # cs) old")
    case True
    have "length (drop (length old) (c # cs)) \<le> length (replace (drop (length old) (c # cs)) old new)"
      using Cons.prems by (intro replace_length_mono) simp_all
    moreover have "length old \<le> length (c # cs)" using True by (rule starts_with_length)
    ultimately show ?thesis using True Cons.prems by (simp add: replace_Cons)
  next
    case False
    then have "contains cs old" using Cons.prems by simp
    then have "length cs < length (replace cs old new)" using Cons by simp
    then show ?thesis using False Cons.prems by (simp add: replace_Cons)
  qed
qed

lemma starts_with_append_drop: "starts_with s p \<Longrightarrow> p @ drop (length p) s = s"
  by (induction s p rule: starts_with.induct) auto

lemma replace_same_aux: "old \<noteq> [] \<Longrightarrow> new = old \<Longrightarrow> replace s old new = s"
proof (induction s old new rule: replace.induct)
  case (1 s old new)
  show ?case
  proof (cases s)
    case Nil
    then show ?thesis using "1.prems" by (simp add: replace_Nil)
  next
    case (Cons c cs)
    show ?thesis
    proof (cases "starts_with s old")
      case True
      have "replace (drop (length old) s) old new = drop (length old) s"
        using "1.IH"(1)[OF "1.prems"(1) Cons True] "1.prems" by simp
      then show ?thesis
        using Cons True "1.prems" starts_with_append_drop[OF True] by (simp add: replace_Cons)
    next
      case False
      have "replace cs old new = cs"
        using "1.IH"(2)[OF "1.prems"(1) Cons False] "1.prems" by simp
      then show ?thesis using Cons False "1.prems" by (simp add: replace_Cons)
    qed
  qed
qed

lemma replace_same: "old \<noteq> [] \<Longrightarrow> replace s old old = s"
  by (rule replace_same_aux) simp_all

lemma fold_replace_length:
  "table_ok tbl \<Longrightarrow> length s \<le> length (fold (\<lambda>(abbr, full) d. replace d abbr full) tbl s)"
proof (induction tbl arbitrary: s)
  case Nil
  then show ?case by simp
next
  case (Cons p tbl)
  obtain a f where p: "p = (a, f)" by (cases p)
  have ok: "table_ok tbl" and a: "a \<noteq> []" and af: "length a \<le> length f"
    using Cons.prems by (auto simp: table_ok_def p)
  have "length s \<le> length (replace s a f)" using a af by (rule replace_length_mono)
  also have "\<dots> \<le> length (fold (\<lambda>(abbr, full) d. replace d abbr full) tbl (replace s a f))"
    using ok by (rule Cons.IH)
  finally show ?case by (simp add: p)
qed

lemma fold_replace_fixed:
  "table_ok tbl \<Longrightarrow>
   (fold (\<lambda>(abbr, full) d. replace d abbr full) tbl s = s)
     = (\<forall>(a, f) \<in> set tbl. a \<noteq> f \<longrightarrow> \<not> contains s a)"
proof (induction tbl arbitrary: s)
  case Nil
  then show ?case by simp
next
  case (Cons p tbl)
  obtain a f where p: "p = (a, f)" by (cases p)
  have ok: "table_ok tbl" and a: "a \<noteq> []" and af: "a = f \<or> length a < length f"
    using Cons.prems by (auto simp: table_ok_def p)
  show ?case
  proof (cases "a \<noteq> f \<and> contains s a")
    case True
    then have "length s < length (replace s a f)"
      using a af by (intro replace_length_grows) auto
    also have "\<dots> \<le> length (fold (\<lambda>(abbr, full) d. replace d abbr full) tbl (replace s a f))"
      using ok by (rule fold_replace_length)
    finally have "fold (\<lambda>(abbr, full) d. replace d abbr full) (p # tbl) s \<noteq> s"
      by (auto simp: p)
    then show ?thesis using True by (auto simp: p)
  next
    case False
    then have "replace s a f = s"
      using a replace_same[of a s] replace_absent[of a s f] by auto
    then show ?thesis using False Cons.IH[OF ok, of s] by (auto simp: p)
  qed
qed

lemma month_table_ok: "table_ok month_table"
  by (simp add: table_ok_def month_table_def)

lemma month_table_others:
  "(\<forall>(a, f) \<in> set month_table. a \<noteq> f \<longrightarrow> \<not> contains s a)
     = (\<forall>abbr \<in> set other_abbreviations. \<not> contains s abbr)"
  by (simp add: month_table_def other_abbreviations_def)

lemma standardize_date_example:
  "remove_char CHR ''.'' (standardize_date ''Jan. 31, 2020'') = ''January 31, 2020''"
  by code_simp

text \<open>
  C8, as stated: the replacement is claimed to be idempotent.  Applied to its own output
  for \<open>Jan. 31, 2020\<close> it finds \<open>Jan\<close> inside \<open>January\<close> and replaces it again.
\<close>

theorem standardize_date_twice_counterexample:
  "standardize_date ''Jan. 31, 2020'' = ''January. 31, 2020''
   \<and> standardize_date (standardize_date ''Jan. 31, 2020'') = ''Januaryuary. 31, 2020''"
  by code_simp

text \<open>
  C8, amended.  The header \<open>Jan. 31, 2020\<close> reaches the date parser as
  \<open>January 31, 2020\<close>.  The replacement leaves a string unchanged exactly when the string
  contains none of the eleven abbreviations other than \<open>May\<close>; so a second application
  changes every replaced string that holds such a month name.
\<close>

theorem standardize_date_fixed_points:
  "get_datetime_index_dates_from_statement to_datetime
       \<lparr>ths = [\<lparr>th_class = [''th''], th_div_string = Some ''Jan. 31, 2020''\<rparr>], tables = ts\<rparr>
     = to_datetime [''January 31, 2020'']
   \<and> (standardize_date d = d \<longleftrightarrow> (\<forall>abbr \<in> set other_abbreviations. \<not> contains d abbr))"
proof
  show "get_datetime_index_dates_from_statement to_datetime
       \<lparr>ths = [\<lparr>th_class = [''th''], th_div_string = Some ''Jan. 31, 2020''\<rparr>], tables = ts\<rparr>
     = to_datetime [''January 31, 2020'']"
    by (simp add: get_datetime_index_dates_from_statement_def standardize_date_example)
  show "standardize_date d = d \<longleftrightarrow> (\<forall>abbr \<in> set other_abbreviations. \<not> contains d abbr)"
    unfolding standardize_date_def fold_replace_fixed[OF month_table_ok] month_table_others ..
qed

lemma may_date_no_other: "\<forall>abbr \<in> set other_abbreviations. \<not> contains ''May 31, 2020'' abbr"
  by code_simp

lemma january_contains: "contains ''January 31, 2020'' ''Jan'' \<and> ''Jan'' \<in> set other_abbreviations"
  by code_simp

theorem standardize_date_fixed_points_witness:
  "list_all (\<lambda>abbr. \<not> contains ''May 31, 2020'' abbr) other_abbreviations
   \<and> standardize_date ''May 31, 2020'' = ''May 31, 2020''
   \<and> \<not> list_all (\<lambda>abbr. \<not> contains ''January 31, 2020'' abbr) other_abbreviations
   \<and> standardize_date ''January 31, 2020'' \<noteq> ''January 31, 2020''"
  using standardize_date_fixed_points[where d = "''May 31, 2020''"]
    standardize_date_fixed_points[where d = "''January 31, 2020''"]
    may_date_no_other january_contains
  unfolding list_all_iff
  by blast

section \<open>The row loop of the extractor\<close>

lemma process_cells_result:
  "process_cells sp m i cs vals = Inr vs \<Longrightarrow>
   length vs = length vals \<and>
   (\<forall>k<length vals.
      (k < i \<longrightarrow> vs ! k = vals ! k) \<and>
      (i + length cs \<le> k \<longrightarrow> vs ! k = vals ! k) \<and>
      (i \<le> k \<and> k < i + length cs \<longrightarrow>
         (\<exists>r. cell_value sp m (cs ! (k - i)) = Inr r
              \<and> vs ! k = (case r of None \<Rightarrow> vals ! k | Some x \<Rightarrow> Some x))))"
proof (induction cs arbitrary: i vals)
  case Nil
  then show ?case by auto
next
  case (Cons c cs)
  show ?case
  proof (cases "cell_value sp m c")
    case (Inl e)
    then show ?thesis using Cons.prems by simp
  next
    case (Inr r)
    show ?thesis
    proof (cases r)
      case None
      then have rec: "process_cells sp m (Suc i) cs vals = Inr vs"
        using Cons.prems Inr by simp
      note ih = Cons.IH[OF rec]
      show ?thesis
      proof (intro conjI allI impI)
        show "length vs = length vals" using ih by simp
      next
        fix k assume "k < length vals" "k < i"
        then show "vs ! k = vals ! k" using ih by simp
      next
        fix k assume "k < length vals" "i + length (c # cs) \<le> k"
        then show "vs ! k = vals ! k" using ih by simp
      next
        fix k assume k: "k < length vals" "i \<le> k \<and> k < i + length (c # cs)"
        show "\<exists>r. cell_value sp m ((c # cs) ! (k - i)) = Inr r
              \<and> vs ! k = (case r of None \<Rightarrow> vals ! k | Some x \<Rightarrow> Some x)"
        proof (cases "k = i")
          case True
          then have "vs ! k = vals ! k" using ih k by simp
          then show ?thesis using True Inr None by simp
        next
          case False
          then have "Suc i \<le> k \<and> k < Suc i + length cs" using k by simp
          then obtain r' where "cell_value sp m (cs ! (k - Suc i)) = Inr r'"
            "vs ! k = (case r' of None \<Rightarrow> vals ! k | Some x \<Rightarrow> Some x)"
            using ih k(1) by blast
          moreover have "(c # cs) ! (k - i) = cs ! (k - Suc i)"
            using False k by (simp add: nth_Cons')
          ultimately show ?thesis by simp
        qed
      qed
    next
      case (Some x)
      then have inb: "i < length vals"
        using Cons.prems Inr by (auto split: if_splits)
      then have rec: "process_cells sp m (Suc i) cs (vals[i := Some x]) = Inr vs"
        using Cons.prems Inr Some by simp
      note ih = Cons.IH[OF rec]
      show ?thesis
      proof (intro conjI allI impI)
        show "length vs = length vals" using ih by simp
      next
        fix k assume "k < length vals" "k < i"
        then show "vs ! k = vals ! k" using ih by simp
      next
        fix k assume "k < length vals" "i + length (c # cs) \<le> k"
        then show "vs ! k = vals ! k" using ih by simp
      next
        fix k assume k: "k < length vals" "i \<le> k \<and> k < i + length (c # cs)"
        show "\<exists>r. cell_value sp m ((c # cs) ! (k - i)) = Inr r
              \<and> vs ! k = (case r of None \<Rightarrow> vals ! k | Some x \<Rightarrow> Some x)"
        proof (cases "k = i")
          case True
          then have "vs ! k = (vals[i := Some x]) ! k" using ih k by simp
          then show ?thesis using True Inr Some inb by simp
        next
          case False
          then have "Suc i \<le> k \<and> k < Suc i + length cs" using k by simp
          then obtain r' where "cell_value sp m (cs ! (k - Suc i)) = Inr r'"
            "vs ! k = (case r' of None \<Rightarrow> (vals[i := Some x]) ! k | Some x \<Rightarrow> Some x)"
            using ih k(1) by auto
          moreover have "(c # cs) ! (k - i) = cs ! (k - Suc i)"
            using False k by (simp add: nth_Cons')
          moreover have "(vals[i := Some x]) ! k = vals ! k"
            using False by simp
          ultimately show ?thesis by (cases r') simp_all
        qed
      qed
    qed
  qed
qed

lemma process_cells_row:
  assumes "process_cells sp m 0 cells (replicate n None) = Inr vals"
  shows "length vals = n"
    and "k < n \<Longrightarrow> k < length cells \<Longrightarrow> cell_value sp m (cells ! k) = Inr (vals ! k)"
    and "k < n \<Longrightarrow> length cells \<le> k \<Longrightarrow> vals ! k = None"
proof -
  note r = process_cells_result[OF assms]
  show "length vals = n" using r by simp
  show "vals ! k = None" if "k < n" "length cells \<le> k"
    using r that by simp
  show "cell_value sp m (cells ! k) = Inr (vals ! k)" if "k < n" "k < length cells"
  proof -
    have "k < length (replicate n (None :: rat option))" "0 \<le> k \<and> k < 0 + length cells"
      using that by simp_all
    then obtain r' where "cell_value sp m (cells ! (k - 0)) = Inr r'"
      "vals ! k = (case r' of None \<Rightarrow> replicate n None ! k | Some x \<Rightarrow> Some x)"
      using r by blast
    then show ?thesis using that by (cases r') simp_all
  qed
qed




text \<open>The value lists of the extractor, row by row.\<close>

lemma process_rows_rows:
  "process_rows sc m n rs (cols, vs) = Inr (cols', vs') \<Longrightarrow>
   \<exists>new. vs' = vs @ new
     \<and> list_all2 (\<lambda>r vals. process_cells sc m 0 (select_value_cells r) (replicate n None) = Inr vals)
           (filter (\<lambda>r. onclick_elements r \<noteq> []) rs) new"
proof (induction rs arbitrary: cols vs)
  case Nil
  then show ?case by simp
next
  case (Cons r rs)
  show ?case
  proof (cases "onclick_elements r")
    case Nil
    then have "process_rows sc m n rs (cols, vs) = Inr (cols', vs')"
      using Cons.prems by simp
    then show ?thesis using Cons.IH Nil by simp
  next
    case (Cons a as)
    note oc = this
    from Cons.prems oc obtain attr where a: "a = Some attr"
      by (cases a) simp_all
    from Cons.prems oc a obtain vals where
      c: "process_cells sc m 0 (select_value_cells r) (replicate n None) = Inr vals"
      by (cases "process_cells sc m 0 (select_value_cells r) (replicate n None)") simp_all
    have "process_rows sc m n rs (cols @ [column_title_of attr], vs @ [vals]) = Inr (cols', vs')"
      using Cons.prems oc a c by simp
    then obtain new where n: "vs' = (vs @ [vals]) @ new"
      "list_all2 (\<lambda>r vals. process_cells sc m 0 (select_value_cells r) (replicate n None) = Inr vals)
           (filter (\<lambda>r. onclick_elements r \<noteq> []) rs) new"
      using Cons.IH by blast
    have "vs' = vs @ (vals # new)" using n(1) by simp
    moreover have "list_all2 (\<lambda>r vals. process_cells sc m 0 (select_value_cells r) (replicate n None) = Inr vals)
           (filter (\<lambda>r. onclick_elements r \<noteq> []) (r # rs)) (vals # new)"
      using n(2) c oc by simp
    ultimately show ?thesis by blast
  qed
qed

lemma process_tables_rows:
  "process_tables n ts (cols, vs) = Inr (cols', vs') \<Longrightarrow>
   \<exists>new. vs' = vs @ new
     \<and> list_all2 (\<lambda>(t, r) vals.
             process_cells (special_case_of (table_header t)) (unit_multiplier_of (table_header t))
               0 (select_value_cells r) (replicate n None) = Inr vals)
           (concat (map (\<lambda>t. map (Pair t) (filter (\<lambda>r. onclick_elements r \<noteq> []) (trs t))) ts))
           new"
proof (induction ts arbitrary: cols vs)
  case Nil
  then show ?case by simp
next
  case (Cons t ts)
  from Cons.prems obtain cols1 vs1 where
    step: "process_rows (special_case_of (table_header t)) (unit_multiplier_of (table_header t))
             n (trs t) (cols, vs) = Inr (cols1, vs1)"
    and rest: "process_tables n ts (cols1, vs1) = Inr (cols', vs')"
    by (auto split: sum.splits)
  from process_rows_rows[OF step] obtain new1 where n1: "vs1 = vs @ new1"
    "list_all2 (\<lambda>r vals. process_cells (special_case_of (table_header t))
                 (unit_multiplier_of (table_header t)) 0 (select_value_cells r)
                 (replicate n None) = Inr vals)
       (filter (\<lambda>r. onclick_elements r \<noteq> []) (trs t)) new1"
    by blast
  from Cons.IH[OF rest] obtain new2 where n2: "vs' = vs1 @ new2"
    "list_all2 (\<lambda>(t, r) vals.
             process_cells (special_case_of (table_header t)) (unit_multiplier_of (table_header t))
               0 (select_value_cells r) (replicate n None) = Inr vals)
           (concat (map (\<lambda>t. map (Pair t) (filter (\<lambda>r. onclick_elements r \<noteq> []) (trs t))) ts))
           new2"
    by blast
  have h: "list_all2 (\<lambda>(t, r) vals.
             process_cells (special_case_of (table_header t)) (unit_multiplier_of (table_header t))
               0 (select_value_cells r) (replicate n None) = Inr vals)
           (map (Pair t) (filter (\<lambda>r. onclick_elements r \<noteq> []) (trs t))) new1"
    using n1(2) by (simp add: list_all2_map1)
  have "vs' = vs @ (new1 @ new2)" using n1(1) n2(1) by simp
  moreover have "list_all2 (\<lambda>(t, r) vals.
             process_cells (special_case_of (table_header t)) (unit_multiplier_of (table_header t))
               0 (select_value_cells r) (replicate n None) = Inr vals)
           (concat (map (\<lambda>t. map (Pair t) (filter (\<lambda>r. onclick_elements r \<noteq> []) (trs t))) (t # ts)))
           (new1 @ new2)"
    using h n2(2) by (simp add: list_all2_appendI)
  ultimately show ?case by blast
qed

lemma extract_rows:
  assumes "extract_columns_values_and_dates_from_statement to_datetime sp
             = Inr (columns, values_set, dates)"
  shows "list_all2 (\<lambda>(t, r) vals.
             process_cells (special_case_of (table_header t)) (unit_multiplier_of (table_header t))
               0 (select_value_cells r) (replicate (length dates) None) = Inr vals)
           (labelled_rows sp) values_set"
proof -
  from assms have "process_tables (length dates) (tables sp) ([], []) = Inr (columns, values_set)"
    by (auto simp: extract_columns_values_and_dates_from_statement_def split: sum.splits)
  from process_tables_rows[OF this] show ?thesis by (simp add: labelled_rows_def)
qed

lemma extract_positions:
  assumes e: "extract_columns_values_and_dates_from_statement to_datetime sp
             = Inr (columns, values_set, dates)"
    and j: "j < length values_set" and tr: "labelled_rows sp ! j = (t, r)"
  shows "length (values_set ! j) = length dates"
    and "k < length dates \<Longrightarrow> k < length (select_value_cells r) \<Longrightarrow>
         cell_value (special_case_of (table_header t)) (unit_multiplier_of (table_header t))
           (select_value_cells r ! k) = Inr (values_set ! j ! k)"
    and "k < length dates \<Longrightarrow> length (select_value_cells r) \<le> k \<Longrightarrow> values_set ! j ! k = None"
proof -
  note l = extract_rows[OF e]
  have len: "length (labelled_rows sp) = length values_set"
    using l by (rule list_all2_lengthD)
  have "(\<lambda>(t, r) vals.
             process_cells (special_case_of (table_header t)) (unit_multiplier_of (table_header t))
               0 (select_value_cells r) (replicate (length dates) None) = Inr vals)
          (labelled_rows sp ! j) (values_set ! j)"
    using list_all2_nthD[OF l, of j] j len by simp
  then have c: "process_cells (special_case_of (table_header t)) (unit_multiplier_of (table_header t))
               0 (select_value_cells r) (replicate (length dates) None) = Inr (values_set ! j)"
    by (simp add: tr)
  show "length (values_set ! j) = length dates" using c by (rule process_cells_row(1))
  show "cell_value (special_case_of (table_header t)) (unit_multiplier_of (table_header t))
           (select_value_cells r ! k) = Inr (values_set ! j ! k)"
    if "k < length dates" "k < length (select_value_cells r)"
    using c that by (rule process_cells_row(2))
  show "values_set ! j ! k = None" if "k < length dates" "length (select_value_cells r) \<le> k"
    using c that by (rule process_cells_row(3))
qed


section \<open>The extractor on whole statements\<close>

lemma four_dates_strings:
  "remove_char CHR ''.'' (standardize_date ''Dec. 31, 2020'') = ''December 31, 2020''"
  "remove_char CHR ''.'' (standardize_date ''Dec. 31, 2019'') = ''December 31, 2019''"
  "remove_char CHR ''.'' (standardize_date ''Dec. 31, 2018'') = ''December 31, 2018''"
  "remove_char CHR ''.'' (standardize_date ''Dec. 31, 2017'') = ''December 31, 2017''"
  by code_simp+

lemma four_dates_index:
  "get_datetime_index_dates_from_statement Inr four_dates_soup
     = Inr [''December 31, 2020'', ''December 31, 2019'', ''December 31, 2018'', ''December 31, 2017'']"
  by (simp add: get_datetime_index_dates_from_statement_def four_dates_soup_def four_dates_strings)

lemma four_dates_header_flags:
  "unit_multiplier_of (Some four_dates_header) = 1000"
  "special_case_of (Some four_dates_header) = False"
  by code_simp+

lemma assets_onclick_title:
  "column_title_of ''top.Show.showAR( this, 'defref_us-gaap_Assets', window );'' = ''us-gaap_Assets''"
  by code_simp

lemma four_dates_clean:
  "clean_cell_text ''$ 10'' = ''10''" "clean_cell_text ''(20)'' = ''20''"
  by code_simp+

lemma py_float_examples:
  "py_float ''10'' = Inr 10" "py_float ''20'' = Inr 20"
  by (simp_all add: py_float_def is_digit_def nat_of_digits_def digit_val_def)

lemma four_dates_cells:
  "process_cells False 1000 0 (select_value_cells four_dates_row) [None, None, None, None]
     = Inr [Some 10000, Some (- 20000), None, None]"
  by (simp add: four_dates_row_def select_value_cells_def cell_value_def four_dates_clean
      py_float_examples)

lemma four_dates_extract:
  "extract_columns_values_and_dates_from_statement Inr four_dates_soup
     = Inr ([''us-gaap_Assets''], [[Some 10000, Some (- 20000), None, None]],
            [''December 31, 2020'', ''December 31, 2019'', ''December 31, 2018'', ''December 31, 2017''])"
proof -
  have r: "onclick_elements four_dates_row
      = [Some ''top.Show.showAR( this, 'defref_us-gaap_Assets', window );'']"
    by (simp add: four_dates_row_def)
  have t: "tables four_dates_soup = [\<lparr>table_header = Some four_dates_header,
                 trs = [\<lparr>onclick_elements = [], tds = []\<rparr>, four_dates_row]\<rparr>]"
    by (simp add: four_dates_soup_def)
  show ?thesis
    using four_dates_cells
    by (simp add: extract_columns_values_and_dates_from_statement_def four_dates_index t r
        four_dates_header_flags assets_onclick_title)
qed


lemma special_case_strings:
  "remove_char CHR ''.'' (standardize_date ''Jan. 31, 2020'') = ''January 31, 2020''"
  "unit_multiplier_of (Some special_case_header) = 1000"
  "special_case_of (Some special_case_header) = True"
  "clean_cell_text ''$2,000,000'' = ''2000000''"
  by code_simp+

lemma py_float_2000000: "py_float ''2000000'' = Inr 2000000"
  by (simp add: py_float_def is_digit_def nat_of_digits_def digit_val_def)

lemma special_case_cells:
  "process_cells True 1000 0 (select_value_cells special_case_row) [None] = Inr [None]"
  by (simp add: special_case_row_def select_value_cells_def cell_value_def special_case_strings
      py_float_2000000)

text \<open>
  C1.  The claim is that in a special-case table the cell \<open>$2,000,000\<close> is stored as 2000.
  The code divides the local variable by 1000 and never assigns it: the row keeps NaN.
\<close>

theorem special_case_value_not_stored:
  "extract_columns_values_and_dates_from_statement Inr special_case_soup
     = Inr ([''us-gaap_Assets''], [[None]], [''January 31, 2020''])"
proof -
  have r: "onclick_elements special_case_row
      = [Some ''top.Show.showAR( this, 'defref_us-gaap_Assets', window );'']"
    by (simp add: special_case_row_def)
  have i: "get_datetime_index_dates_from_statement Inr special_case_soup
      = Inr [''January 31, 2020'']"
    by (simp add: get_datetime_index_dates_from_statement_def special_case_soup_def
        special_case_strings)
  have t: "tables special_case_soup
      = [\<lparr>table_header = Some special_case_header, trs = [special_case_row]\<rparr>]"
    by (simp add: special_case_soup_def)
  show ?thesis
    using special_case_cells
    by (simp add: extract_columns_values_and_dates_from_statement_def i t r
        special_case_strings assets_onclick_title)
qed

text \<open>In a special-case table no cell assigns anything, whatever its text.\<close>

lemma special_case_cell_value:
  "cell_value True unit_multiplier c = Inr r \<Longrightarrow> r = None"
  by (auto simp: cell_value_def Let_def split: if_splits sum.splits)

section \<open>When the row loop raises IndexError\<close>





















section \<open>Signs and multipliers\<close>


lemma clean_cell_text_remove:
  "c \<in> {CHR ''$'', CHR '','', CHR ''('', CHR '')''} \<Longrightarrow>
   clean_cell_text (remove_char c t) = clean_cell_text t"
proof -
  assume c: "c \<in> {CHR ''$'', CHR '','', CHR ''('', CHR '')''}"
  have "remove_char CHR '')'' (remove_char CHR ''('' (remove_char CHR '','' (remove_char CHR ''$''
          (remove_char c t))))
      = remove_char CHR '')'' (remove_char CHR ''('' (remove_char CHR '','' (remove_char CHR ''$'' t)))"
    using c unfolding remove_char_def filter_filter
    by (intro filter_cong refl) auto
  then show ?thesis by (simp add: clean_cell_text_def)
qed

lemma cell_value_remove:
  "c \<in> {CHR ''$'', CHR '','', CHR ''('', CHR '')''} \<Longrightarrow>
   cell_value sp m (cl\<lparr>cell_text := remove_char c (cell_text cl)\<rparr>) = cell_value sp m cl"
  by (simp add: cell_value_def Let_def clean_cell_text_remove del: insert_iff split: sum.splits)


lemma cell_value_multiplier:
  assumes "cell_value False m c = Inr (Some v)"
  shows "\<exists>x. cell_value False 1 c = Inr (Some x) \<and> v = x * of_int m"
  using assms by (auto simp: cell_value_def Let_def split: if_splits sum.splits)

lemma keep_numeric_parens:
  "keep_numeric (remove_char CHR '')'' (remove_char CHR ''('' s)) = keep_numeric s"
  unfolding keep_numeric_def remove_char_def filter_filter
  by (intro filter_cong refl) (auto simp: is_digit_def)

lemma dollar_parens:
  "(CHR ''$'' \<in> set (remove_char CHR '')'' (remove_char CHR ''('' s))) = (CHR ''$'' \<in> set s)"
  by (auto simp: remove_char_def)


lemma standardize_number_multiplier:
  assumes "standardize_number (Str s) m = Inr (Some v)"
  shows "\<exists>n. standardize_number (Str s) 1 = Inr (Some n)
           \<and> v = (if CHR ''$'' \<in> set s then n * m else n)"
  using assms
  by (auto simp: standardize_number_def Let_def keep_numeric_parens dollar_parens
      split: if_splits option.splits)

lemma standardize_number_examples:
  "standardize_number (Str ''$1,234'') 1000 = Inr (Some 1234000)"
  "standardize_number (Str ''1,234'') 1000 = Inr (Some 1234)"
  "standardize_number (Str ''(1,234)'') 1 = Inr (Some (- 1234))"
  by (simp_all add: standardize_number_def strip_def is_space_def missing_markers_def
      remove_char_def keep_numeric_def is_digit_def py_int_def nat_of_digits_def digit_val_def)

lemma more_strings:
  "clean_cell_text ''(5)'' = ''5''" "clean_cell_text ''1,234'' = ''1234''"
  by code_simp+

lemma py_float_1234: "py_float ''1234'' = Inr 1234"
  by (simp add: py_float_def is_digit_def nat_of_digits_def digit_val_def)





lemma extract_stored_value:
  assumes e: "extract_columns_values_and_dates_from_statement to_datetime sp
             = Inr (columns, values_set, dates)"
    and j: "j < length values_set" and k: "k < length dates"
    and ns: "\<not> special_case_of (table_header (fst (labelled_rows sp ! j)))"
    and u: "values_set ! j ! k = Some u"
  shows "k < length (select_value_cells (snd (labelled_rows sp ! j)))
     \<and> (\<exists>x. cell_value False 1 (select_value_cells (snd (labelled_rows sp ! j)) ! k) = Inr (Some x)
           \<and> u = x * of_int (unit_multiplier_of (table_header (fst (labelled_rows sp ! j)))))"
proof -
  have tr: "labelled_rows sp ! j = (fst (labelled_rows sp ! j), snd (labelled_rows sp ! j))"
    by simp
  have inside: "k < length (select_value_cells (snd (labelled_rows sp ! j)))"
  proof (rule ccontr)
    assume "\<not> k < length (select_value_cells (snd (labelled_rows sp ! j)))"
    then have "length (select_value_cells (snd (labelled_rows sp ! j))) \<le> k" by simp
    then have "values_set ! j ! k = None" using extract_positions(3)[OF e j tr k] by simp
    then show False using u by simp
  qed
  have "cell_value (special_case_of (table_header (fst (labelled_rows sp ! j))))
          (unit_multiplier_of (table_header (fst (labelled_rows sp ! j))))
          (select_value_cells (snd (labelled_rows sp ! j)) ! k) = Inr (values_set ! j ! k)"
    using e j tr k inside by (rule extract_positions(2))
  then have "cell_value False (unit_multiplier_of (table_header (fst (labelled_rows sp ! j))))
          (select_value_cells (snd (labelled_rows sp ! j)) ! k) = Inr (Some u)"
    using ns u by simp
  then have "\<exists>x. cell_value False 1 (select_value_cells (snd (labelled_rows sp ! j)) ! k) = Inr (Some x)
           \<and> u = x * of_int (unit_multiplier_of (table_header (fst (labelled_rows sp ! j))))"
    by (rule cell_value_multiplier)
  then show ?thesis using inside by simp
qed

lemma plain_number_cells:
  "select_value_cells plain_number_row = [\<lparr>cell_class = [''nump''], cell_text = ''1,234''\<rparr>]"
  by (simp add: plain_number_row_def select_value_cells_def)

lemma plain_number_extract:
  "extract_columns_values_and_dates_from_statement Inr plain_number_soup
     = Inr ([''us-gaap_Assets''], [[Some 1234000]], [''January 31, 2020''])"
proof -
  have r: "onclick_elements plain_number_row
      = [Some ''top.Show.showAR( this, 'defref_us-gaap_Assets', window );'']"
    by (simp add: plain_number_row_def)
  have i: "get_datetime_index_dates_from_statement Inr plain_number_soup
      = Inr [''January 31, 2020'']"
    by (simp add: get_datetime_index_dates_from_statement_def plain_number_soup_def
        special_case_strings)
  have t: "tables plain_number_soup
      = [\<lparr>table_header = Some four_dates_header, trs = [plain_number_row]\<rparr>]"
    by (simp add: plain_number_soup_def)
  have c: "process_cells False 1000 0 (select_value_cells plain_number_row) [None]
      = Inr [Some 1234000]"
    by (simp add: plain_number_cells cell_value_def more_strings py_float_1234)
  show ?thesis
    using c
    by (simp add: extract_columns_values_and_dates_from_statement_def i t r
        four_dates_header_flags assets_onclick_title)
qed

text \<open>
  C5, as stated: the header multiplier is claimed to apply only to currency-bearing cells.
  From a table whose header says \<open>in Millions\<close> the extractor returns 1234000 for the cell
  \<open>1,234\<close>, which has no \<open>$\<close>.
\<close>

theorem multiplier_without_currency_counterexample:
  "CHR ''$'' \<notin> set ''1,234''
   \<and> select_value_cells plain_number_row = [\<lparr>cell_class = [''nump''], cell_text = ''1,234''\<rparr>]
   \<and> tables plain_number_soup
       = [\<lparr>table_header = Some ''Consolidated Balance Sheets - USD ($) $ in Millions'',
           trs = [plain_number_row]\<rparr>]
   \<and> extract_columns_values_and_dates_from_statement Inr plain_number_soup
       = Inr ([''us-gaap_Assets''], [[Some 1234000]], [''January 31, 2020''])"
proof -
  have t: "tables plain_number_soup
       = [\<lparr>table_header = Some ''Consolidated Balance Sheets - USD ($) $ in Millions'',
           trs = [plain_number_row]\<rparr>]"
    by (simp add: plain_number_soup_def four_dates_header_def)
  have d: "CHR ''$'' \<notin> set ''1,234''" by simp
  show ?thesis
    by (rule conjI[OF d conjI[OF plain_number_cells conjI[OF t plain_number_extract]]])
qed

text \<open>
  C5, amended.  \<open>__standardize_number\<close> multiplies the parsed integer by its multiplier
  argument exactly when the string contains \<open>$\<close>, and the three examples hold.  The table
  extractor takes the multiplier from the header of the table (1 for \<open>in Thousands\<close>,
  otherwise 1000 for \<open>in Millions\<close>, 1 without either or without a header) and every
  value it returns for a row of a table that is not special-case is the value of the cell
  at that position times the multiplier of that table's header, whether or not the cell
  has a \<open>$\<close>, which is removed before parsing.
\<close>

theorem multiplier_application:
  "(standardize_number (Str s) multiplier = Inr (Some v)
      \<longrightarrow> (\<exists>n. standardize_number (Str s) 1 = Inr (Some n)
                \<and> v = (if CHR ''$'' \<in> set s then n * multiplier else n)))
   \<and> standardize_number (Str ''$1,234'') 1000 = Inr (Some 1234000)
   \<and> standardize_number (Str ''1,234'') 1000 = Inr (Some 1234)
   \<and> standardize_number (Str ''(1,234)'') 1 = Inr (Some (- 1234))
   \<and> unit_multiplier_of None = 1
   \<and> (contains h ''in Thousands'' \<longrightarrow> unit_multiplier_of (Some h) = 1)
   \<and> (\<not> contains h ''in Thousands'' \<and> contains h ''in Millions''
      \<longrightarrow> unit_multiplier_of (Some h) = 1000)
   \<and> (\<not> contains h ''in Thousands'' \<and> \<not> contains h ''in Millions''
      \<longrightarrow> unit_multiplier_of (Some h) = 1)
   \<and> cell_value False unit_multiplier (c\<lparr>cell_text := remove_char CHR ''$'' (cell_text c)\<rparr>)
       = cell_value False unit_multiplier c
   \<and> (cell_value False unit_multiplier c = Inr (Some w)
      \<longrightarrow> (\<exists>x. cell_value False 1 c = Inr (Some x) \<and> w = x * of_int unit_multiplier))
   \<and> (extract_columns_values_and_dates_from_statement to_datetime sp
          = Inr (columns, values_set, dates)
        \<and> j < length values_set \<and> k < length dates
        \<and> \<not> special_case_of (table_header (fst (labelled_rows sp ! j)))
        \<and> values_set ! j ! k = Some u
      \<longrightarrow> k < length (select_value_cells (snd (labelled_rows sp ! j)))
          \<and> (\<exists>x. cell_value False 1 (select_value_cells (snd (labelled_rows sp ! j)) ! k)
                    = Inr (Some x)
                \<and> u = x * of_int (unit_multiplier_of
                                    (table_header (fst (labelled_rows sp ! j))))))"
proof -
  have a: "standardize_number (Str s) multiplier = Inr (Some v)
      \<longrightarrow> (\<exists>n. standardize_number (Str s) 1 = Inr (Some n)
                \<and> v = (if CHR ''$'' \<in> set s then n * multiplier else n))"
    using standardize_number_multiplier by blast
  have b: "unit_multiplier_of None = 1
   \<and> (contains h ''in Thousands'' \<longrightarrow> unit_multiplier_of (Some h) = 1)
   \<and> (\<not> contains h ''in Thousands'' \<and> contains h ''in Millions''
      \<longrightarrow> unit_multiplier_of (Some h) = 1000)
   \<and> (\<not> contains h ''in Thousands'' \<and> \<not> contains h ''in Millions''
      \<longrightarrow> unit_multiplier_of (Some h) = 1)"
    by (simp add: unit_multiplier_of_def)
  have c: "cell_value False unit_multiplier (c\<lparr>cell_text := remove_char CHR ''$'' (cell_text c)\<rparr>)
       = cell_value False unit_multiplier c"
    by (rule cell_value_remove) simp
  have d: "cell_value False unit_multiplier c = Inr (Some w)
      \<longrightarrow> (\<exists>x. cell_value False 1 c = Inr (Some x) \<and> w = x * of_int unit_multiplier)"
    using cell_value_multiplier by blast
  have e: "extract_columns_values_and_dates_from_statement to_datetime sp
          = Inr (columns, values_set, dates)
        \<and> j < length values_set \<and> k < length dates
        \<and> \<not> special_case_of (table_header (fst (labelled_rows sp ! j)))
        \<and> values_set ! j ! k = Some u
      \<longrightarrow> k < length (select_value_cells (snd (labelled_rows sp ! j)))
          \<and> (\<exists>x. cell_value False 1 (select_value_cells (snd (labelled_rows sp ! j)) ! k)
                    = Inr (Some x)
                \<and> u = x * of_int (unit_multiplier_of
                                    (table_header (fst (labelled_rows sp ! j)))))"
    using extract_stored_value[of to_datetime sp columns values_set dates j k u] by blast
  show ?thesis
    by (rule conjI[OF a conjI[OF standardize_number_examples(1)
          conjI[OF standardize_number_examples(2) conjI[OF standardize_number_examples(3)
          conjI[OF b[THEN conjunct1] conjI[OF b[THEN conjunct2, THEN conjunct1]
          conjI[OF b[THEN conjunct2, THEN conjunct2, THEN conjunct1]
          conjI[OF b[THEN conjunct2, THEN conjunct2, THEN conjunct2]
          conjI[OF c conjI[OF d e]]]]]]]]]])
qed

lemma nump_10_value:
  "cell_value False 1000 \<lparr>cell_class = [''nump''], cell_text = ''$ 10''\<rparr> = Inr (Some 10000)"
  by (simp add: cell_value_def four_dates_clean py_float_examples)

lemma four_dates_header_contains:
  "\<not> contains four_dates_header ''in Thousands'' \<and> contains four_dates_header ''in Millions''"
  by code_simp

lemma four_dates_labelled:
  "snd (labelled_rows four_dates_soup ! 0) = four_dates_row"
  "table_header (fst (labelled_rows four_dates_soup ! 0)) = Some four_dates_header"
proof -
  have r: "onclick_elements four_dates_row \<noteq> []" by (simp add: four_dates_row_def)
  show "snd (labelled_rows four_dates_soup ! 0) = four_dates_row"
    by (simp add: labelled_rows_def four_dates_soup_def r)
  show "table_header (fst (labelled_rows four_dates_soup ! 0)) = Some four_dates_header"
    by (simp add: labelled_rows_def four_dates_soup_def r)
qed

lemma four_dates_first_cell:
  "select_value_cells four_dates_row ! 0 = \<lparr>cell_class = [''nump''], cell_text = ''$ 10''\<rparr>"
  by (simp add: four_dates_row_def select_value_cells_def)

theorem multiplier_application_witness:
  "standardize_number (Str ''$1,234'') 1000 = Inr (Some 1234000)
   \<and> (\<exists>n. standardize_number (Str ''$1,234'') 1 = Inr (Some n)
         \<and> 1234000 = (if CHR ''$'' \<in> set ''$1,234'' then n * 1000 else n))
   \<and> \<not> contains four_dates_header ''in Thousands'' \<and> contains four_dates_header ''in Millions''
   \<and> unit_multiplier_of (Some four_dates_header) = 1000
   \<and> cell_value False 1000 \<lparr>cell_class = [''nump''], cell_text = ''$ 10''\<rparr> = Inr (Some 10000)
   \<and> (\<exists>x. cell_value False 1 \<lparr>cell_class = [''nump''], cell_text = ''$ 10''\<rparr> = Inr (Some x)
         \<and> 10000 = x * of_int 1000)
   \<and> extract_columns_values_and_dates_from_statement Inr four_dates_soup
       = Inr ([''us-gaap_Assets''], [[Some 10000, Some (- 20000), None, None]],
              [''December 31, 2020'', ''December 31, 2019'', ''December 31, 2018'',
               ''December 31, 2017''])
   \<and> \<not> special_case_of (table_header (fst (labelled_rows four_dates_soup ! 0)))
   \<and> (\<exists>x. cell_value False 1 (select_value_cells (snd (labelled_rows four_dates_soup ! 0)) ! 0)
             = Inr (Some x)
         \<and> 10000 = x * of_int (unit_multiplier_of
                                  (table_header (fst (labelled_rows four_dates_soup ! 0)))))"
proof -
  let ?vs = "[[Some 10000, Some (- 20000), None, None :: rat option]]"
  let ?ds = "[''December 31, 2020'', ''December 31, 2019'', ''December 31, 2018'',
              ''December 31, 2017'']"
  note t = multiplier_application[of "''$1,234''" 1000 1234000 four_dates_header 1000
      "\<lparr>cell_class = [''nump''], cell_text = ''$ 10''\<rparr>" 10000
      Inr four_dates_soup "[''us-gaap_Assets'']" ?vs ?ds 0 0 10000]
  have old: "standardize_number (Str ''$1,234'') 1000 = Inr (Some 1234000)
   \<and> (\<exists>n. standardize_number (Str ''$1,234'') 1 = Inr (Some n)
         \<and> 1234000 = (if CHR ''$'' \<in> set ''$1,234'' then n * 1000 else n))
   \<and> \<not> contains four_dates_header ''in Thousands'' \<and> contains four_dates_header ''in Millions''
   \<and> unit_multiplier_of (Some four_dates_header) = 1000
   \<and> cell_value False 1000 \<lparr>cell_class = [''nump''], cell_text = ''$ 10''\<rparr> = Inr (Some 10000)
   \<and> (\<exists>x. cell_value False 1 \<lparr>cell_class = [''nump''], cell_text = ''$ 10''\<rparr> = Inr (Some x)
         \<and> 10000 = x * of_int 1000)"
    using standardize_number_examples(1) four_dates_header_contains nump_10_value
      t[THEN conjunct1]
      t[THEN conjunct2, THEN conjunct2, THEN conjunct2, THEN conjunct2, THEN conjunct2,
        THEN conjunct2, THEN conjunct1]
      t[THEN conjunct2, THEN conjunct2, THEN conjunct2, THEN conjunct2, THEN conjunct2,
        THEN conjunct2, THEN conjunct2, THEN conjunct2, THEN conjunct2, THEN conjunct1]
    by simp
  have ns: "\<not> special_case_of (table_header (fst (labelled_rows four_dates_soup ! 0)))"
    by (simp add: four_dates_labelled four_dates_header_flags)
  have hyp: "extract_columns_values_and_dates_from_statement Inr four_dates_soup
          = Inr ([''us-gaap_Assets''], ?vs, ?ds)
        \<and> 0 < length ?vs \<and> 0 < length ?ds
        \<and> \<not> special_case_of (table_header (fst (labelled_rows four_dates_soup ! 0)))
        \<and> ?vs ! 0 ! 0 = Some 10000"
    using four_dates_extract ns by simp
  note new = t[THEN conjunct2, THEN conjunct2, THEN conjunct2, THEN conjunct2, THEN conjunct2,
        THEN conjunct2, THEN conjunct2, THEN conjunct2, THEN conjunct2, THEN conjunct2,
        THEN mp, OF hyp, THEN conjunct2]
  show ?thesis
    by (rule conjI[OF old[THEN conjunct1] conjI[OF old[THEN conjunct2, THEN conjunct1]
          conjI[OF old[THEN conjunct2, THEN conjunct2, THEN conjunct1]
          conjI[OF old[THEN conjunct2, THEN conjunct2, THEN conjunct2, THEN conjunct1]
          conjI[OF old[THEN conjunct2, THEN conjunct2, THEN conjunct2, THEN conjunct2, THEN conjunct1]
          conjI[OF old[THEN conjunct2, THEN conjunct2, THEN conjunct2, THEN conjunct2, THEN conjunct2, THEN conjunct1]
          conjI[OF old[THEN conjunct2, THEN conjunct2, THEN conjunct2, THEN conjunct2, THEN conjunct2, THEN conjunct2]
          conjI[OF four_dates_extract conjI[OF ns new]]]]]]]]])
qed

section \<open>The frame of a statement\<close>

lemma fold_min_length:
  "(\<forall>r \<in> set rest. length r = m) \<Longrightarrow> fold (\<lambda>r n. min (length r) n) rest m = m"
  by (induction rest) simp_all

lemma zip_star_rectangular:
  assumes "xss \<noteq> []" and "\<forall>r \<in> set xss. length r = m"
  shows "zip_star xss = map (\<lambda>i. map (\<lambda>r. r ! i) xss) [0 ..< m]"
proof -
  obtain xs rest where x: "xss = xs # rest" using assms(1) by (cases xss) auto
  have "length xs = m" and "\<forall>r \<in> set rest. length r = m" using assms(2) x by simp_all
  then have "fold (\<lambda>r n. min (length r) n) rest (length xs) = m"
    using fold_min_length[of rest m] by simp
  then show ?thesis by (simp add: zip_star_def x)
qed

lemma transpose_back:
  assumes "\<forall>r \<in> set xss. length r = m"
  shows "map (\<lambda>j. map (\<lambda>r. r ! j) (map (\<lambda>i. map (\<lambda>r. r ! i) xss) [0 ..< m]))
             [0 ..< length xss] = xss"
proof (rule nth_equalityI)
  show "length (map (\<lambda>j. map (\<lambda>r. r ! j) (map (\<lambda>i. map (\<lambda>r. r ! i) xss) [0 ..< m]))
             [0 ..< length xss]) = length xss"
    by simp
next
  fix j assume "j < length (map (\<lambda>j. map (\<lambda>r. r ! j) (map (\<lambda>i. map (\<lambda>r. r ! i) xss) [0 ..< m]))
             [0 ..< length xss])"
  then have j: "j < length xss" by simp
  then have len: "length (xss ! j) = m" using assms by simp
  have "map (\<lambda>r. r ! j) (map (\<lambda>i. map (\<lambda>r. r ! i) xss) [0 ..< m]) = xss ! j"
  proof (rule nth_equalityI)
    show "length (map (\<lambda>r. r ! j) (map (\<lambda>i. map (\<lambda>r. r ! i) xss) [0 ..< m])) = length (xss ! j)"
      using len by simp
  next
    fix i assume "i < length (map (\<lambda>r. r ! j) (map (\<lambda>i. map (\<lambda>r. r ! i) xss) [0 ..< m]))"
    then have "i < m" by simp
    then show "map (\<lambda>r. r ! j) (map (\<lambda>i. map (\<lambda>r. r ! i) xss) [0 ..< m]) ! i = xss ! j ! i"
      using j by simp
  qed
  then show "map (\<lambda>j. map (\<lambda>r. r ! j) (map (\<lambda>i. map (\<lambda>r. r ! i) xss) [0 ..< m]))
             [0 ..< length xss] ! j = xss ! j"
    using j by simp
qed

lemma frame_of_statement_rectangular:
  assumes n: "length columns = length values_set"
    and m: "\<forall>vals \<in> set values_set. length vals = length dates"
    and ne: "values_set \<noteq> []" "dates \<noteq> []"
  shows "frame_of_statement values_set columns dates
     = Some (drop_duplicates
          \<lparr>frame_index = columns, frame_columns = dates, frame_data = values_set\<rparr>)"
proof -
  let ?data = "map (\<lambda>i. map (\<lambda>r. r ! i) values_set) [0 ..< length dates]"
  have z: "zip_star values_set = ?data"
    using ne(1) m by (rule zip_star_rectangular)
  have d: "?data \<noteq> []" using ne(2) by simp
  have w: "\<not> list_ex (\<lambda>r. length r \<noteq> length columns) ?data"
    using n by (simp add: list_ex_iff)
  have df: "create_dataframe_of_statement_values_columns_dates values_set columns dates
      = Inr \<lparr>frame_index = dates, frame_columns = columns, frame_data = ?data\<rparr>"
    unfolding create_dataframe_of_statement_values_columns_dates_def DataFrame_def z
    using d w by simp
  have e: "\<not> frame_empty \<lparr>frame_index = dates, frame_columns = columns, frame_data = ?data\<rparr>"
    using ne n by (auto simp: frame_empty_def)
  have t: "frame_T \<lparr>frame_index = dates, frame_columns = columns, frame_data = ?data\<rparr>
      = \<lparr>frame_index = columns, frame_columns = dates, frame_data = values_set\<rparr>"
    using transpose_back[OF m] n by (simp add: frame_T_def)
  show ?thesis
    unfolding frame_of_statement_def df using e t by simp
qed

lemma frame_of_statement_empty:
  assumes n: "length columns = length values_set"
    and m: "\<forall>vals \<in> set values_set. length vals = length dates"
    and e: "values_set = [] \<or> dates = []"
  shows "frame_of_statement values_set columns dates = None"
proof (cases "values_set = []")
  case True
  then show ?thesis
    using n by (simp add: frame_of_statement_def
        create_dataframe_of_statement_values_columns_dates_def DataFrame_def zip_star_def
        frame_empty_def)
next
  case False
  then have d: "dates = []" using e by simp
  have "zip_star values_set = map (\<lambda>i. map (\<lambda>r. r ! i) values_set) [0 ..< length dates]"
    using False m by (rule zip_star_rectangular)
  then have "zip_star values_set = []" using d by simp
  then show ?thesis
    using d by (simp add: frame_of_statement_def
        create_dataframe_of_statement_values_columns_dates_def DataFrame_def frame_empty_def)
qed

lemma keep_first_indices:
  "keep_first seen rows =
     map (\<lambda>i. rows ! i)
       (filter (\<lambda>i. snd (rows ! i) \<notin> set seen \<and> (\<forall>j<i. snd (rows ! j) \<noteq> snd (rows ! i)))
          [0 ..< length rows])"
proof (induction rows arbitrary: seen)
  case Nil
  then show ?case by simp
next
  case (Cons p rows)
  obtain l r where p: "p = (l, r)" by (cases p)
  have upt: "[0 ..< length (p # rows)] = 0 # map Suc [0 ..< length rows]"
    by (simp add: upt_conv_Cons map_Suc_upt del: upt_Suc)
  have all_Suc: "\<And>i P. (\<forall>j<Suc i. P j) = (P 0 \<and> (\<forall>j<i. P (Suc j)))"
    by (metis less_Suc_eq_0_disj)
  have rhs: "map (\<lambda>i. (p # rows) ! i)
       (filter (\<lambda>i. snd ((p # rows) ! i) \<notin> set seen
                  \<and> (\<forall>j<i. snd ((p # rows) ! j) \<noteq> snd ((p # rows) ! i)))
          [0 ..< length (p # rows)])
     = (if r \<notin> set seen then [p] else [])
       @ map (\<lambda>i. rows ! i)
           (filter (\<lambda>i. snd (rows ! i) \<notin> set seen \<and> r \<noteq> snd (rows ! i)
                      \<and> (\<forall>j<i. snd (rows ! j) \<noteq> snd (rows ! i))) [0 ..< length rows])"
    unfolding upt by (simp add: p filter_map comp_def all_Suc)
  show ?case
  proof (cases "r \<in> set seen")
    case True
    have "filter (\<lambda>i. snd (rows ! i) \<notin> set seen \<and> r \<noteq> snd (rows ! i)
                    \<and> (\<forall>j<i. snd (rows ! j) \<noteq> snd (rows ! i))) [0 ..< length rows]
        = filter (\<lambda>i. snd (rows ! i) \<notin> set seen
                    \<and> (\<forall>j<i. snd (rows ! j) \<noteq> snd (rows ! i))) [0 ..< length rows]"
      using True by (intro filter_cong refl) auto
    then show ?thesis
      unfolding rhs using True Cons.IH[of seen] by (simp add: p)
  next
    case False
    have "filter (\<lambda>i. snd (rows ! i) \<notin> set seen \<and> r \<noteq> snd (rows ! i)
                    \<and> (\<forall>j<i. snd (rows ! j) \<noteq> snd (rows ! i))) [0 ..< length rows]
        = filter (\<lambda>i. snd (rows ! i) \<notin> set (r # seen)
                    \<and> (\<forall>j<i. snd (rows ! j) \<noteq> snd (rows ! i))) [0 ..< length rows]"
      by (intro filter_cong refl) auto
    then show ?thesis
      unfolding rhs using False Cons.IH[of "r # seen"] by (simp add: p)
  qed
qed

lemma keep_first_length: "length (keep_first seen rows) \<le> length rows"
  by (induction seen rows rule: keep_first.induct) auto

lemma keep_first_subset: "set (keep_first seen rows) \<subseteq> set rows"
  by (induction seen rows rule: keep_first.induct) auto

lemma drop_duplicates_rows:
  assumes "length columns = length values_set"
  shows "zip (frame_index (drop_duplicates
               \<lparr>frame_index = columns, frame_columns = dates, frame_data = values_set\<rparr>))
             (frame_data (drop_duplicates
               \<lparr>frame_index = columns, frame_columns = dates, frame_data = values_set\<rparr>))
     = map (\<lambda>i. (columns ! i, values_set ! i))
         (filter (\<lambda>i. \<forall>j<i. values_set ! j \<noteq> values_set ! i) [0 ..< length values_set])"
proof -
  let ?rows = "zip columns values_set"
  have len: "length ?rows = length values_set" using assms by simp
  have f: "filter (\<lambda>i. snd (?rows ! i) \<notin> set [] \<and> (\<forall>j<i. snd (?rows ! j) \<noteq> snd (?rows ! i)))
              [0 ..< length ?rows]
      = filter (\<lambda>i. \<forall>j<i. values_set ! j \<noteq> values_set ! i) [0 ..< length values_set]"
    unfolding len using assms by (intro filter_cong refl) auto
  have "keep_first [] ?rows
      = map (\<lambda>i. ?rows ! i)
          (filter (\<lambda>i. \<forall>j<i. values_set ! j \<noteq> values_set ! i) [0 ..< length values_set])"
    unfolding keep_first_indices[of "[]" ?rows] f ..
  also have "\<dots> = map (\<lambda>i. (columns ! i, values_set ! i))
          (filter (\<lambda>i. \<forall>j<i. values_set ! j \<noteq> values_set ! i) [0 ..< length values_set])"
    using assms by (intro map_cong refl) auto
  finally have k: "keep_first [] ?rows
      = map (\<lambda>i. (columns ! i, values_set ! i))
          (filter (\<lambda>i. \<forall>j<i. values_set ! j \<noteq> values_set ! i) [0 ..< length values_set])" .
  have "zip (frame_index (drop_duplicates
               \<lparr>frame_index = columns, frame_columns = dates, frame_data = values_set\<rparr>))
             (frame_data (drop_duplicates
               \<lparr>frame_index = columns, frame_columns = dates, frame_data = values_set\<rparr>))
      = keep_first [] ?rows"
    by (simp add: drop_duplicates_def Let_def zip_map_fst_snd)
  then show ?thesis by (simp only: k)
qed

text \<open>
  C3, as stated: rows are claimed to be de-duplicated by label, and no row to be dropped
  unless its label repeats an earlier one.  Two rows with different labels and equal
  values lose the second row; two rows with one label and different values are both kept.
\<close>

theorem rows_by_label_counterexample:
  "frame_of_statement [[Some 100], [Some 100]]
       [''Assets'', ''LiabilitiesAndStockholdersEquity''] [''January 31, 2020'']
     = Some \<lparr>frame_index = [''Assets''], frame_columns = [''January 31, 2020''],
             frame_data = [[Some 100]]\<rparr>
   \<and> frame_of_statement [[Some 1], [Some 2]] [''Cash'', ''Cash''] [''January 31, 2020'']
     = Some \<lparr>frame_index = [''Cash'', ''Cash''], frame_columns = [''January 31, 2020''],
             frame_data = [[Some 1], [Some 2]]\<rparr>"
proof
  show "frame_of_statement [[Some 100], [Some 100]]
       [''Assets'', ''LiabilitiesAndStockholdersEquity''] [''January 31, 2020'']
     = Some \<lparr>frame_index = [''Assets''], frame_columns = [''January 31, 2020''],
             frame_data = [[Some 100]]\<rparr>"
    by (subst frame_of_statement_rectangular) (simp_all add: drop_duplicates_def)
  show "frame_of_statement [[Some 1], [Some 2]] [''Cash'', ''Cash''] [''January 31, 2020'']
     = Some \<lparr>frame_index = [''Cash'', ''Cash''], frame_columns = [''January 31, 2020''],
             frame_data = [[Some 1], [Some 2]]\<rparr>"
    by (subst frame_of_statement_rectangular) (simp_all add: drop_duplicates_def)
qed

text \<open>
  C3, amended.  For \<open>N \<ge> 1\<close> rows of \<open>M \<ge> 1\<close> values each, the statement's frame has the \<open>M\<close>
  dates as columns and at most \<open>N\<close> rows of \<open>M\<close> values.  Rows are de-duplicated by their
  values, not by their labels: the rows of the frame are, in order and with their labels,
  exactly the input rows whose value list differs from that of every earlier row.  With
  no row or no date the result is \<open>None\<close>.
\<close>

theorem frame_rows_deduplicated_by_values:
  "(length columns = length values_set
      \<and> (\<forall>vals \<in> set values_set. length vals = length dates)
      \<and> values_set \<noteq> [] \<and> dates \<noteq> []
    \<longrightarrow> (\<exists>g. frame_of_statement values_set columns dates = Some g
             \<and> frame_columns g = dates
             \<and> length (frame_index g) = length (frame_data g)
             \<and> length (frame_data g) \<le> length values_set
             \<and> (\<forall>r \<in> set (frame_data g). length r = length dates)
             \<and> zip (frame_index g) (frame_data g)
                 = map (\<lambda>i. (columns ! i, values_set ! i))
                     (filter (\<lambda>i. \<forall>j<i. values_set ! j \<noteq> values_set ! i)
                        [0 ..< length values_set])))
   \<and> (length columns = length values_set
      \<and> (\<forall>vals \<in> set values_set. length vals = length dates)
      \<and> (values_set = [] \<or> dates = [])
    \<longrightarrow> frame_of_statement values_set columns dates = None)"
proof (intro conjI impI)
  assume h: "length columns = length values_set
      \<and> (\<forall>vals \<in> set values_set. length vals = length dates)
      \<and> values_set \<noteq> [] \<and> dates \<noteq> []"
  let ?g = "drop_duplicates
     \<lparr>frame_index = columns, frame_columns = dates, frame_data = values_set\<rparr>"
  let ?kept = "keep_first [] (zip columns values_set)"
  have g: "frame_of_statement values_set columns dates = Some ?g"
    using h by (intro frame_of_statement_rectangular) simp_all
  have idx: "frame_index ?g = map fst ?kept" and dat: "frame_data ?g = map snd ?kept"
    and col: "frame_columns ?g = dates"
    by (simp_all add: drop_duplicates_def Let_def)
  have le: "length (frame_data ?g) \<le> length values_set"
    using keep_first_length[of "[]" "zip columns values_set"] h by (simp add: dat)
  have sub: "set (frame_data ?g) \<subseteq> set values_set"
  proof
    fix r assume "r \<in> set (frame_data ?g)"
    then obtain l where "(l, r) \<in> set ?kept" by (auto simp: dat)
    then have "(l, r) \<in> set (zip columns values_set)"
      using keep_first_subset[of "[]" "zip columns values_set"] by blast
    then show "r \<in> set values_set" by (rule set_zip_rightD)
  qed
  have rows: "\<forall>r \<in> set (frame_data ?g). length r = length dates"
    using sub h by blast
  have "frame_of_statement values_set columns dates = Some ?g
             \<and> frame_columns ?g = dates
             \<and> length (frame_index ?g) = length (frame_data ?g)
             \<and> length (frame_data ?g) \<le> length values_set
             \<and> (\<forall>r \<in> set (frame_data ?g). length r = length dates)
             \<and> zip (frame_index ?g) (frame_data ?g)
                 = map (\<lambda>i. (columns ! i, values_set ! i))
                     (filter (\<lambda>i. \<forall>j<i. values_set ! j \<noteq> values_set ! i)
                        [0 ..< length values_set])"
    using g col le rows drop_duplicates_rows[of columns values_set dates] h
    by (simp add: idx dat)
  then show "\<exists>g. frame_of_statement values_set columns dates = Some g
             \<and> frame_columns g = dates
             \<and> length (frame_index g) = length (frame_data g)
             \<and> length (frame_data g) \<le> length values_set
             \<and> (\<forall>r \<in> set (frame_data g). length r = length dates)
             \<and> zip (frame_index g) (frame_data g)
                 = map (\<lambda>i. (columns ! i, values_set ! i))
                     (filter (\<lambda>i. \<forall>j<i. values_set ! j \<noteq> values_set ! i)
                        [0 ..< length values_set])"
    by (rule exI)
next
  assume "length columns = length values_set
      \<and> (\<forall>vals \<in> set values_set. length vals = length dates)
      \<and> (values_set = [] \<or> dates = [])"
  then show "frame_of_statement values_set columns dates = None"
    by (intro frame_of_statement_empty) simp_all
qed

theorem frame_rows_deduplicated_by_values_witness:
  "length [''Assets'', ''Cash'', ''LiabilitiesAndStockholdersEquity'']
     = length [[Some 100, Some 90], [None, Some 5], [Some 100, Some (90 :: rat)]]
   \<and> list_all (\<lambda>vals. length vals = length [''December 31, 2020'', ''December 31, 2019''])
         [[Some 100, Some 90], [None, Some 5], [Some 100, Some (90 :: rat)]]
   \<and> (\<exists>g. frame_of_statement [[Some 100, Some 90], [None, Some 5], [Some 100, Some 90]]
              [''Assets'', ''Cash'', ''LiabilitiesAndStockholdersEquity'']
              [''December 31, 2020'', ''December 31, 2019''] = Some g
         \<and> frame_columns g = [''December 31, 2020'', ''December 31, 2019'']
         \<and> length (frame_data g) \<le> 3
         \<and> zip (frame_index g) (frame_data g)
             = [(''Assets'', [Some 100, Some 90]), (''Cash'', [None, Some 5])])
   \<and> frame_of_statement [] [] [''December 31, 2020'', ''December 31, 2019''] = None"
proof -
  let ?vs = "[[Some 100, Some 90], [None, Some 5], [Some 100, Some (90 :: rat)]]"
  let ?cs = "[''Assets'', ''Cash'', ''LiabilitiesAndStockholdersEquity'']"
  let ?ds = "[''December 31, 2020'', ''December 31, 2019'']"
  have f: "filter (\<lambda>i. \<forall>j<i. ?vs ! j \<noteq> ?vs ! i) [0 ..< length ?vs] = [0, 1]"
    by (simp add: upt_conv_Cons less_Suc_eq)
  have h1: "length ?cs = length ?vs" by simp
  have h2: "\<forall>vals \<in> set ?vs. length vals = length ?ds" by simp
  have h2': "list_all (\<lambda>vals. length vals = length ?ds) ?vs" by simp
  have hyp: "length ?cs = length ?vs \<and> (\<forall>vals \<in> set ?vs. length vals = length ?ds)
      \<and> ?vs \<noteq> [] \<and> ?ds \<noteq> []"
    using h1 h2 by simp
  from frame_rows_deduplicated_by_values[of ?cs ?vs ?ds, THEN conjunct1, THEN mp, OF hyp]
  obtain g where g: "frame_of_statement ?vs ?cs ?ds = Some g
      \<and> frame_columns g = ?ds
      \<and> length (frame_index g) = length (frame_data g)
      \<and> length (frame_data g) \<le> length ?vs
      \<and> (\<forall>r \<in> set (frame_data g). length r = length ?ds)
      \<and> zip (frame_index g) (frame_data g)
          = map (\<lambda>i. (?cs ! i, ?vs ! i)) (filter (\<lambda>i. \<forall>j<i. ?vs ! j \<noteq> ?vs ! i) [0 ..< length ?vs])"
    ..
  note g1 = g[THEN conjunct1]
  note g2 = g[THEN conjunct2, THEN conjunct1]
  note g4 = g[THEN conjunct2, THEN conjunct2, THEN conjunct2, THEN conjunct1]
  note g6 = g[THEN conjunct2, THEN conjunct2, THEN conjunct2, THEN conjunct2, THEN conjunct2]
  have m: "map (\<lambda>i. (?cs ! i, ?vs ! i)) [0, 1]
      = [(''Assets'', [Some 100, Some 90]), (''Cash'', [None, Some 5])]"
    by simp
  have z: "zip (frame_index g) (frame_data g)
      = [(''Assets'', [Some 100, Some 90]), (''Cash'', [None, Some 5])]"
    using g6 unfolding f m .
  have l: "length (frame_data g) \<le> 3" using g4 by simp
  have "frame_of_statement ?vs ?cs ?ds = Some g \<and> frame_columns g = ?ds
      \<and> length (frame_data g) \<le> 3
      \<and> zip (frame_index g) (frame_data g)
          = [(''Assets'', [Some 100, Some 90]), (''Cash'', [None, Some 5])]"
    by (rule conjI[OF g1 conjI[OF g2 conjI[OF l z]]])
  then have c: "\<exists>g. frame_of_statement ?vs ?cs ?ds = Some g \<and> frame_columns g = ?ds
      \<and> length (frame_data g) \<le> 3
      \<and> zip (frame_index g) (frame_data g)
          = [(''Assets'', [Some 100, Some 90]), (''Cash'', [None, Some 5])]"
    by (rule exI[where x = g])
  have e: "frame_of_statement [] [] ?ds = None"
    by (rule frame_rows_deduplicated_by_values[of "[]" "[]" ?ds, THEN conjunct2, THEN mp]) simp
  show ?thesis by (rule conjI[OF h1 conjI[OF h2' conjI[OF c e]]])
qed

section \<open>The positions of the extracted values, on examples\<close>





end
